theory Spec2Isabelle
  imports Complex_Main "HOL-Library.Word"
begin

section \<open>JavaScript numbers\<close>

text \<open>
  The page computes in IEEE 754 doubles. Their arithmetic is not fixed here: it is a
  parameter \<open>A\<close> of every definition that computes with numbers, a record of the
  operations the source uses on a type \<open>'n\<close> of numbers, with whatever rounding and
  whatever treatment of \<open>NaN\<close> and the infinities the platform has. \<open>fl_num\<close> is the
  number a decimal literal or an integer (a length, a pixel count) denotes. Every
  property below is proved for every such \<open>A\<close>.
\<close>

record 'n arith =
  fl_num :: "real \<Rightarrow> 'n"
  fl_add :: "'n \<Rightarrow> 'n \<Rightarrow> 'n"
  fl_sub :: "'n \<Rightarrow> 'n \<Rightarrow> 'n"
  fl_mul :: "'n \<Rightarrow> 'n \<Rightarrow> 'n"
  fl_div :: "'n \<Rightarrow> 'n \<Rightarrow> 'n"
  fl_sqrt :: "'n \<Rightarrow> 'n"
  fl_abs :: "'n \<Rightarrow> 'n"
  fl_lt :: "'n \<Rightarrow> 'n \<Rightarrow> bool"
  fl_le :: "'n \<Rightarrow> 'n \<Rightarrow> bool"
  fl_ge :: "'n \<Rightarrow> 'n \<Rightarrow> bool"

text \<open>
  The arithmetic of the real numbers, without rounding. It agrees with the doubles
  wherever every operand and every result is a double and no division is by zero, as in
  the examples it is used for.
\<close>

definition exact :: "real arith" where
  "exact =
     \<lparr>fl_num = (\<lambda>r. r), fl_add = (+), fl_sub = (-), fl_mul = (*), fl_div = (/),
      fl_sqrt = sqrt, fl_abs = abs, fl_lt = (<), fl_le = (\<le>), fl_ge = (\<ge>)\<rparr>"

section \<open>Streaming mode: the local energy trigger (startWebSocketStreaming)\<close>

text \<open>
  The analyser hands \<open>sampleRms\<close> one window \<open>dataArr\<close> of time-domain samples
  (a \<open>Float32Array\<close> of \<open>analyser.fftSize = 2048\<close> entries). The loop adds the
  squares from left to right, then takes the square root of the mean.
\<close>

definition sampleRms :: "'n arith \<Rightarrow> 'n list \<Rightarrow> 'n" where
  "sampleRms A dataArr =
     fl_sqrt A
       (fl_div A (fold (\<lambda>x sum. fl_add A sum (fl_mul A x x)) dataArr (fl_num A 0))
          (fl_num A (real (length dataArr))))"

definition RMS_THRESHOLD :: "'n arith \<Rightarrow> 'n" where
  "RMS_THRESHOLD A = fl_num A (2 / 100)"

definition REQUIRED_FRAMES :: nat where
  "REQUIRED_FRAMES = 3"

text \<open>
  The state of the polling promise: the counter \<open>consecutive\<close> and whether the promise
  has been resolved (after which \<open>check\<close> is not scheduled again and the MediaRecorder
  is started).
\<close>

record trigger_state =
  consecutive :: nat
  resolved :: bool

definition trigger_init :: trigger_state where
  "trigger_init = \<lparr>consecutive = 0, resolved = False\<rparr>"

text \<open>One run of \<open>check\<close> on the window the analyser holds at that render frame.\<close>

definition check :: "'n arith \<Rightarrow> 'n list \<Rightarrow> trigger_state \<Rightarrow> trigger_state" where
  "check A dataArr s =
     (if resolved s then s
      else
        let rms = sampleRms A dataArr;
            c = (if fl_ge A rms (RMS_THRESHOLD A) then consecutive s + 1 else 0)
        in if c \<ge> REQUIRED_FRAMES
           then s\<lparr>consecutive := c, resolved := True\<rparr>
           else s\<lparr>consecutive := c\<rparr>)"

text \<open>The polling loop over the windows sampled so far, oldest first.\<close>

definition wait_for_audio :: "'n arith \<Rightarrow> 'n list list \<Rightarrow> trigger_state" where
  "wait_for_audio A windows = fold (check A) windows trigger_init"

section \<open>Subtitles: formatSubtitle\<close>

text \<open>
  A JavaScript string is a sequence of UTF-16 code units, and \<open>length\<close> counts them.
\<close>

type_synonym js_string = "16 word list"

definition ascii :: "string \<Rightarrow> js_string" where
  "ascii s = map of_char s"

text \<open>
  The code units that \<open>String.prototype.trim\<close> strips and that \<open>\s\<close> (without the
  \<open>u\<close> flag) matches: ECMAScript's WhiteSpace and LineTerminator.
\<close>

definition is_ws :: "16 word \<Rightarrow> bool" where
  "is_ws c \<longleftrightarrow>
     c = 0x0009 \<or> c = 0x000A \<or> c = 0x000B \<or> c = 0x000C \<or> c = 0x000D \<or> c = 0x0020 \<or>
     c = 0x00A0 \<or> c = 0x1680 \<or> (0x2000 \<le> c \<and> c \<le> 0x200A) \<or> c = 0x2028 \<or>
     c = 0x2029 \<or> c = 0x202F \<or> c = 0x205F \<or> c = 0x3000 \<or> c = 0xFEFF"

definition space :: "16 word" where
  "space = 0x0020"

definition trim :: "js_string \<Rightarrow> js_string" where
  "trim s = rev (dropWhile is_ws (rev (dropWhile is_ws s)))"

text \<open>
  \<open>s.split(/\s+/)\<close>: the pieces between the maximal runs of white space. A run at the
  start or at the end leaves an empty piece there, and the empty string gives one empty
  piece. \<open>in_sep\<close> says that the scan is inside a run of white space; \<open>cur\<close> is the
  piece being read.
\<close>

fun split_go :: "bool \<Rightarrow> js_string \<Rightarrow> js_string \<Rightarrow> js_string list" where
  "split_go in_sep cur [] = [cur]"
| "split_go in_sep cur (c # cs) =
     (if is_ws c then (if in_sep then split_go True cur cs else cur # split_go True [] cs)
      else split_go False (cur @ [c]) cs)"

definition split_ws :: "js_string \<Rightarrow> js_string list" where
  "split_ws s = split_go False [] s"

text \<open>
  The \<open>for (const w of words)\<close> loop, on the pair of \<open>lines\<close> and \<open>current\<close>.
\<close>

fun wrap_loop :: "nat \<Rightarrow> js_string list \<Rightarrow> js_string list \<times> js_string \<Rightarrow> js_string list \<times> js_string" where
  "wrap_loop maxCharsPerLine [] (lines, current) = (lines, current)"
| "wrap_loop maxCharsPerLine (w # ws) (lines, current) =
     (if length current = 0 then wrap_loop maxCharsPerLine ws (lines, w)
      else if length (current @ [space] @ w) \<le> maxCharsPerLine
      then wrap_loop maxCharsPerLine ws (lines, current @ [space] @ w)
      else wrap_loop maxCharsPerLine ws (lines @ [current], w))"

text \<open>
  \<open>formatSubtitle(text, maxCharsPerLine = 44)\<close>. \<open>None\<close> stands for an argument that is
  missing, \<open>undefined\<close> or (for \<open>text\<close>) \<open>null\<close>: \<open>text || ''\<close> makes it the empty
  string, and the default parameter makes the limit 44.
\<close>

definition formatSubtitle :: "js_string option \<Rightarrow> nat option \<Rightarrow> js_string list" where
  "formatSubtitle text maxChars =
     (let maxCharsPerLine = (case maxChars of None \<Rightarrow> 44 | Some n \<Rightarrow> n);
          words = split_ws (trim (case text of None \<Rightarrow> [] | Some t \<Rightarrow> t));
          (lines, current) = wrap_loop maxCharsPerLine words ([], []);
          lines' = (if length current \<noteq> 0 then lines @ [current] else lines)
      in take 3 lines')"

section \<open>The kiosk page: global state\<close>

datatype phase = Idle | Listening | Processing | Answering

datatype tier = Far | Medium | Near

datatype toast = DialogueError | PlaybackError

type_synonym blob = "8 word list"

text \<open>What the page does to the outside, in order: the log against which sends, toasts
  and playback are observed.\<close>

datatype effect =
    NetworkSend blob
  | ShowToast toast
  | SwitchToSpeaking
  | PlayAudio js_string
  | SwitchToWaiting

text \<open>
  The script's global variables (\<open>busy\<close>, \<open>currentPhase\<close>, \<open>isPlayingAudio\<close>,
  \<open>isRecording\<close>, \<open>mainLoopStarted\<close>, \<open>window.__greetedRecently\<close>,
  \<open>presenceDetected\<close>, \<open>presenceTimer\<close>), the variables that the handler of
  \<open>faceMesh.onResults\<close> closes over (\<open>detectionCount\<close>, \<open>lastTier\<close>,
  \<open>attention\<close>), whether that handler has been registered, and the part of the
  browser they act on: the clock in milliseconds, the pending presence-hold timeouts
  (handle and due time), the next timeout handle, the number of pending 30 s safety
  timeouts of \<open>loopOnce\<close>, the number of pending 20 s timeouts that clear
  \<open>window.__greetedRecently\<close>, and the log of effects.
\<close>

record kiosk =
  busy :: bool
  currentPhase :: phase
  isPlayingAudio :: bool
  isRecording :: bool
  mainLoopStarted :: bool
  greetedRecently :: bool
  presenceDetected :: bool
  presenceTimer :: "nat option"
  onResultsInstalled :: bool
  detectionCount :: nat
  lastTier :: tier
  attention :: bool
  now :: nat
  timeouts :: "(nat \<times> nat) list"
  nextTimerId :: nat
  safetyTimers :: nat
  greetTimers :: nat
  effects :: "effect list"

text \<open>The values at page load. Timeout handles are positive integers.\<close>

definition kiosk_init :: kiosk where
  "kiosk_init =
     \<lparr>busy = False, currentPhase = Idle, isPlayingAudio = False, isRecording = False,
      mainLoopStarted = False, greetedRecently = False, presenceDetected = False,
      presenceTimer = None, onResultsInstalled = False, detectionCount = 0, lastTier = Far,
      attention = False, now = 0, timeouts = [], nextTimerId = 1, safetyTimers = 0,
      greetTimers = 0, effects = []\<rparr>"

text \<open>
  The delay the browser gives a timeout: \<open>setTimeout\<close> converts its second argument
  to a signed 32-bit integer (it wraps modulo \<open>2^32\<close>), and a negative delay counts
  as 0.
\<close>

definition timer_delay :: "int \<Rightarrow> nat" where
  "timer_delay ms =
     (let t = sint (word_of_int ms :: 32 word) in if t < 0 then 0 else nat t)"

text \<open>\<open>clearTimeout(id)\<close> and the \<open>setTimeout\<close> of the presence handler, which stores
  the new handle in \<open>presenceTimer\<close>.\<close>

definition clearTimeout :: "nat \<Rightarrow> kiosk \<Rightarrow> kiosk" where
  "clearTimeout h k = k\<lparr>timeouts := filter (\<lambda>(i, due). i \<noteq> h) (timeouts k)\<rparr>"

definition setPresenceTimeout :: "int \<Rightarrow> kiosk \<Rightarrow> kiosk" where
  "setPresenceTimeout delay k =
     k\<lparr>presenceTimer := Some (nextTimerId k),
       timeouts := timeouts k @ [(nextTimerId k, now k + timer_delay delay)],
       nextTimerId := nextTimerId k + 1\<rparr>"

section \<open>Presence detection: the handler of faceMesh.onResults\<close>

text \<open>
  \<open>window.__presenceCfg\<close>: the \<open>presence\<close> object of the configuration. \<open>None\<close> is a
  key that is absent (or \<open>null\<close>), for which \<open>??\<close> and \<open>||\<close> give the default.
\<close>

record 'n roi =
  roi_top :: 'n
  roi_left :: 'n
  roi_width :: 'n
  roi_height :: 'n

record 'n presence_cfg =
  cfg_roi :: "'n roi option"
  attentionTolerancePx :: "'n option"
  nearThreshold :: "'n option"
  mediumThreshold :: "'n option"
  holdMs :: "int option"

text \<open>A landmark (normalised coordinates), and what a call of the handler receives: the
  size of the video and \<open>results.multiFaceLandmarks\<close> (empty when it is absent).\<close>

record 'n landmark =
  pt_x :: 'n
  pt_y :: 'n

record 'n results =
  videoWidth :: nat
  videoHeight :: nat
  multiFaceLandmarks :: "'n landmark list list"

definition eyeDistanceNorm :: "'n arith \<Rightarrow> 'n results \<Rightarrow> 'n landmark list \<Rightarrow> 'n" where
  "eyeDistanceNorm A res landmarks =
     (let leftEye = landmarks ! 33;
          rightEye = landmarks ! 263;
          dx = fl_mul A (fl_sub A (pt_x rightEye) (pt_x leftEye))
                 (fl_num A (real (videoWidth res)));
          dy = fl_mul A (fl_sub A (pt_y rightEye) (pt_y leftEye))
                 (fl_num A (real (videoHeight res)));
          eyeDistancePixels = fl_sqrt A (fl_add A (fl_mul A dx dx) (fl_mul A dy dy))
      in fl_div A eyeDistancePixels (fl_num A (real (videoWidth res))))"

definition nearTh :: "'n arith \<Rightarrow> 'n presence_cfg \<Rightarrow> 'n" where
  "nearTh A pcfg = (case nearThreshold pcfg of None \<Rightarrow> fl_num A (10 / 100) | Some v \<Rightarrow> v)"

definition medTh :: "'n arith \<Rightarrow> 'n presence_cfg \<Rightarrow> 'n" where
  "medTh A pcfg = (case mediumThreshold pcfg of None \<Rightarrow> fl_num A (7 / 100) | Some v \<Rightarrow> v)"

definition tier_of :: "'n arith \<Rightarrow> 'n presence_cfg \<Rightarrow> 'n \<Rightarrow> tier" where
  "tier_of A pcfg eyeNorm =
     (if fl_ge A eyeNorm (nearTh A pcfg) then Near
      else if fl_ge A eyeNorm (medTh A pcfg) then Medium
      else Far)"

definition horizOffset :: "'n arith \<Rightarrow> 'n results \<Rightarrow> 'n landmark list \<Rightarrow> 'n" where
  "horizOffset A res landmarks =
     (let leftEye = landmarks ! 33; rightEye = landmarks ! 263; nose = landmarks ! 1;
          noseToMidEyeX =
            fl_sub A (fl_div A (fl_add A (pt_x leftEye) (pt_x rightEye)) (fl_num A 2))
              (pt_x nose)
      in fl_mul A (fl_abs A noseToMidEyeX) (fl_num A (real (videoWidth res))))"

definition vertOffset :: "'n arith \<Rightarrow> 'n results \<Rightarrow> 'n landmark list \<Rightarrow> 'n" where
  "vertOffset A res landmarks =
     (let leftEye = landmarks ! 33; rightEye = landmarks ! 263; nose = landmarks ! 1;
          noseToMidEyeY =
            fl_sub A (fl_div A (fl_add A (pt_y leftEye) (pt_y rightEye)) (fl_num A 2))
              (pt_y nose)
      in fl_mul A (fl_abs A noseToMidEyeY) (fl_num A (real (videoHeight res))))"

definition tol :: "'n arith \<Rightarrow> 'n presence_cfg \<Rightarrow> 'n" where
  "tol A pcfg = (case attentionTolerancePx pcfg of None \<Rightarrow> fl_num A 80 | Some v \<Rightarrow> v)"

definition attention_of :: "'n arith \<Rightarrow> 'n presence_cfg \<Rightarrow> 'n results \<Rightarrow> 'n landmark list \<Rightarrow> bool" where
  "attention_of A pcfg res landmarks \<longleftrightarrow>
     fl_lt A (horizOffset A res landmarks) (tol A pcfg) \<and>
     fl_lt A (vertOffset A res landmarks) (tol A pcfg)"

definition inRoi :: "'n arith \<Rightarrow> 'n presence_cfg \<Rightarrow> 'n landmark list \<Rightarrow> bool" where
  "inRoi A pcfg landmarks =
     (let r = (case cfg_roi pcfg of
                 None \<Rightarrow> \<lparr>roi_top = fl_num A 0, roi_left = fl_num A 0,
                           roi_width = fl_num A 1, roi_height = fl_num A 1\<rparr>
               | Some r \<Rightarrow> r);
          xMin = roi_left r;
          xMax = fl_add A (roi_left r) (roi_width r);
          yMin = roi_top r;
          yMax = fl_add A (roi_top r) (roi_height r);
          nose = landmarks ! 1;
          noseXNorm = pt_x nose;
          noseYNorm = pt_y nose
      in fl_ge A noseXNorm xMin \<and> fl_le A noseXNorm xMax \<and>
         fl_ge A noseYNorm yMin \<and> fl_le A noseYNorm yMax)"

definition hold_ms :: "'n presence_cfg \<Rightarrow> int" where
  "hold_ms pcfg = (case holdMs pcfg of None \<Rightarrow> 20000 | Some v \<Rightarrow> v)"

text \<open>
  The handler. The overlay block throws at once (\<open>ctx\<close> is \<open>null\<close>) and its own
  \<open>try\<close> ignores that; logging and the hiding of the subtitles are left out. A face
  with fewer than 264 landmarks makes \<open>landmarks[263].x\<close> throw, which the handler's
  outer \<open>try\<close> catches: the frame is skipped.
\<close>

definition onResults :: "'n arith \<Rightarrow> 'n presence_cfg \<Rightarrow> 'n results \<Rightarrow> kiosk \<Rightarrow> kiosk" where
  "onResults A pcfg res k0 =
     (let k = k0\<lparr>detectionCount := detectionCount k0 + 1\<rparr> in
      case multiFaceLandmarks res of
        [] \<Rightarrow> k
      | landmarks # others \<Rightarrow>
          if length landmarks \<le> 263 then k
          else
            let tier = tier_of A pcfg (eyeDistanceNorm A res landmarks);
                att = attention_of A pcfg res landmarks;
                k1 = k\<lparr>attention := att, lastTier := tier\<rparr>
            in if (tier = Near \<or> tier = Medium) \<and> att \<and> inRoi A pcfg landmarks
               then
                 let k2 = k1\<lparr>presenceDetected := True\<rparr>;
                     k3 = (case presenceTimer k2 of
                             None \<Rightarrow> k2
                           | Some h \<Rightarrow> if h \<noteq> 0 then clearTimeout h k2 else k2)
                 in setPresenceTimeout (hold_ms pcfg) k3
               else k1)"

text \<open>The callback of the hold timeout with handle \<open>h\<close>, run by the browser once the
  timeout is due: it is taken off the pending list and presence is switched off.\<close>

definition holdTimeout :: "nat \<Rightarrow> kiosk \<Rightarrow> kiosk" where
  "holdTimeout h k =
     (if list_ex (\<lambda>(i, due). i = h \<and> due \<le> now k) (timeouts k)
      then (clearTimeout h k)\<lparr>presenceDetected := False\<rparr>
      else k)"

section \<open>The dialogue turn: checkAudioVolume and loopOnce\<close>

text \<open>
  \<open>checkAudioVolume(blob)\<close>. The argument is what decoding the blob gives: \<open>None\<close> when
  \<open>blob.arrayBuffer()\<close>, the creation of the AudioContext or \<open>decodeAudioData\<close>
  throws, otherwise the channels of the decoded AudioBuffer, each a list of samples. The
  function reads \<open>getChannelData(0)\<close> and no other channel; on a buffer without
  channels that call throws. The \<open>catch\<close> returns \<open>true\<close>.
\<close>

definition QUIET_THRESHOLD :: "'n arith \<Rightarrow> 'n" where
  "QUIET_THRESHOLD A = fl_num A (8 / 1000)"

definition volumeRms :: "'n arith \<Rightarrow> 'n list \<Rightarrow> 'n" where
  "volumeRms A channelData =
     fl_sqrt A
       (fl_div A (fold (\<lambda>x sum. fl_add A sum (fl_mul A x x)) channelData (fl_num A 0))
          (fl_num A (real (length channelData))))"

definition checkAudioVolume :: "'n arith \<Rightarrow> 'n list list option \<Rightarrow> bool" where
  "checkAudioVolume A decoded =
     (case decoded of
        None \<Rightarrow> True
      | Some channels \<Rightarrow>
          (case channels of
             [] \<Rightarrow> True
           | channelData # others \<Rightarrow>
               if fl_lt A (volumeRms A channelData) (QUIET_THRESHOLD A) then False else True))"

text \<open>The JSON answer of \<open>/api/dialogue\<close>, as far as \<open>loopOnce\<close> reads it.\<close>

record dialogue_data =
  user_text :: "js_string option"
  answer_text :: "js_string option"
  audio_url :: "js_string option"

text \<open>
  What the outside does at the places where one call of \<open>loopOnce\<close> waits (each
  wait is taken to end; a request or a playback that never settles leaves the call
  waiting):
  \<^item> \<open>recorded\<close>: \<open>recordChunk(6000)\<close> resolves with a blob, or rejects (\<open>None\<close>:
    \<open>getUserMedia\<close> or the MediaRecorder throws);
  \<^item> \<open>decoded\<close>: the decoding inside \<open>checkAudioVolume\<close>;
  \<^item> \<open>response\<close>: \<open>sendAudioToBackend\<close> resolves with the parsed answer, or rejects;
  \<^item> \<open>render_ok\<close>: the synchronous code between the answer and \<open>audioEl.play()\<close>
    (subtitles, route panel, \<open>switchToSpeaking\<close>) runs through, or throws;
  \<^item> \<open>play_ok\<close>: \<open>audioEl.play()\<close> resolves, or rejects;
  \<^item> \<open>ended_by_timeout\<close>: the wait for the end of the audio is ended by the 30 s
    safety timeout rather than by \<open>onended\<close>;
  \<^item> \<open>switch_ok\<close>: \<open>switchToWaiting\<close> runs through, or throws.
\<close>

record 'n turn_env =
  recorded :: "blob option"
  decoded :: "'n list list option"
  response :: "dialogue_data option"
  render_ok :: bool
  play_ok :: bool
  ended_by_timeout :: bool
  switch_ok :: bool

text \<open>The places where \<open>loopOnce\<close> waits. \<open>AwaitRecord True\<close>: the promise of
  \<open>recordChunk\<close> was rejected at once with "already recording".\<close>

datatype turn_pc =
    AwaitRecord bool
  | AwaitVolume blob
  | AwaitSend
  | AwaitPlay
  | AwaitEnded

definition catch_block :: "kiosk \<Rightarrow> kiosk" where
  "catch_block k = k\<lparr>effects := effects k @ [ShowToast DialogueError]\<rparr>"

definition finally_block :: "kiosk \<Rightarrow> kiosk" where
  "finally_block k = k\<lparr>currentPhase := Idle, busy := False\<rparr>"

text \<open>
  \<open>loopOnce\<close> from its call to its first wait: the guard, the two assignments and the
  synchronous start of \<open>recordChunk\<close>. \<open>None\<close>: the call has returned.
\<close>

definition loopOnce_begin :: "kiosk \<Rightarrow> turn_pc option \<times> kiosk" where
  "loopOnce_begin k =
     (if busy k then (None, k)
      else
        let k1 = k\<lparr>busy := True, currentPhase := Listening\<rparr>
        in if isRecording k1 then (Some (AwaitRecord True), k1)
           else (Some (AwaitRecord False), k1\<lparr>isRecording := True\<rparr>))"

text \<open>\<open>loopOnce\<close> from one wait to the next, or to its return (\<open>None\<close>).\<close>

fun turn_step :: "'n arith \<Rightarrow> 'n turn_env \<Rightarrow> turn_pc \<Rightarrow> kiosk \<Rightarrow> turn_pc option \<times> kiosk" where
  "turn_step A env (AwaitRecord rejected) k =
     (if rejected then (None, finally_block (catch_block k))
      else
        case recorded env of
          None \<Rightarrow> (None, finally_block (catch_block (k\<lparr>isRecording := False\<rparr>)))
        | Some audioBlob \<Rightarrow> (Some (AwaitVolume audioBlob), k\<lparr>isRecording := False\<rparr>))"
| "turn_step A env (AwaitVolume audioBlob) k =
     (let hasAudio = checkAudioVolume A (decoded env) in
      if \<not> hasAudio then (None, finally_block (k\<lparr>busy := False\<rparr>))
      else (Some AwaitSend,
            k\<lparr>currentPhase := Processing, effects := effects k @ [NetworkSend audioBlob]\<rparr>))"
| "turn_step A env AwaitSend k =
     (case response env of
        None \<Rightarrow> (None, finally_block (catch_block k))
      | Some data \<Rightarrow>
          if \<not> render_ok env then (None, finally_block (catch_block k))
          else
            case audio_url data of
              None \<Rightarrow> (None, finally_block k)
            | Some audioUrl \<Rightarrow>
                if audioUrl = [] then (None, finally_block k)
                else (Some AwaitPlay,
                      k\<lparr>isPlayingAudio := True, currentPhase := Answering,
                        effects := effects k @ [SwitchToSpeaking, PlayAudio audioUrl]\<rparr>))"
| "turn_step A env AwaitPlay k =
     (let k1 = (if play_ok env then k
                else k\<lparr>effects := effects k @ [ShowToast PlaybackError]\<rparr>)
      in (Some AwaitEnded, k1\<lparr>safetyTimers := safetyTimers k1 + 1\<rparr>))"
| "turn_step A env AwaitEnded k =
     (let k1 = k\<lparr>isPlayingAudio := False, currentPhase := Idle,
                 safetyTimers := (if ended_by_timeout env then safetyTimers k - 1
                                  else safetyTimers k)\<rparr>
      in if switch_ok env
         then (None, finally_block (k1\<lparr>effects := effects k1 @ [SwitchToWaiting]\<rparr>))
         else (None, finally_block (catch_block k1)))"

text \<open>A whole call, with nothing else running in between.\<close>

fun pc_rank :: "turn_pc \<Rightarrow> nat" where
  "pc_rank (AwaitRecord r) = 0"
| "pc_rank (AwaitVolume b) = 1"
| "pc_rank AwaitSend = 2"
| "pc_rank AwaitPlay = 3"
| "pc_rank AwaitEnded = 4"

function run_turn :: "'n arith \<Rightarrow> 'n turn_env \<Rightarrow> turn_pc \<Rightarrow> kiosk \<Rightarrow> kiosk" where
  "run_turn A env pc k =
     (case turn_step A env pc k of
        (None, k') \<Rightarrow> k'
      | (Some pc', k') \<Rightarrow> run_turn A env pc' k')"
  by pat_completeness auto
termination
proof (relation "measure (\<lambda>(A, env, pc, k). 4 - pc_rank pc)")
  show "wf (measure (\<lambda>(A, env, pc, k). 4 - pc_rank pc))" by simp
next
  fix A :: "'n arith" and env :: "'n turn_env" and pc k x1 x2 pc'
  assume "(x1, x2) = turn_step A env pc k" "x1 = Some pc'"
  then have "turn_step A env pc k = (Some pc', x2)" by simp
  then have "pc_rank pc < pc_rank pc' \<and> pc_rank pc' \<le> 4"
    by (cases pc) (auto simp add: Let_def split: if_splits option.splits)
  then have "4 - pc_rank pc' < 4 - pc_rank pc" by arith
  then show "((A, env, pc', x2), (A, env, pc, k)) \<in> measure (\<lambda>(A, env, pc, k). 4 - pc_rank pc)"
    by simp
qed

declare run_turn.simps [simp del]

definition loopOnce :: "'n arith \<Rightarrow> 'n turn_env \<Rightarrow> kiosk \<Rightarrow> kiosk" where
  "loopOnce A env k =
     (case loopOnce_begin k of
        (None, k') \<Rightarrow> k'
      | (Some pc, k') \<Rightarrow> run_turn A env pc k')"

section \<open>The page as an event loop\<close>

text \<open>
  JavaScript runs one callback at a time and a callback runs to its next wait. The page
  is therefore the global state together with the calls of \<open>loopOnce\<close> that are waiting.
  A waiting call is its place, the outcomes its waits will have, and whether
  \<open>mainLoop\<close> made it in its greeting branch (which sets the 20 s timeout after the
  call returns).
\<close>

type_synonym 'n waiting_call = "turn_pc \<times> 'n turn_env \<times> bool"

record 'n page =
  glob :: kiosk
  turns :: "'n waiting_call list"

text \<open>\<open>mainLoop()\<close> up to its polling loop. \<open>USE_WEBRTC_OPUS\<close> and
  \<open>USE_WEBSOCKET_STREAM\<close> are \<open>false\<close>; a refused microphone is only logged.\<close>

definition mainLoop :: "kiosk \<Rightarrow> kiosk" where
  "mainLoop k = (if mainLoopStarted k then k else k\<lparr>mainLoopStarted := True\<rparr>)"

text \<open>
  \<open>startPresenceDetection()\<close>. \<open>camera_ok\<close>: \<open>getUserMedia\<close> for the camera resolves.
  When it rejects, the \<open>catch\<close> calls \<open>mainLoop()\<close> and returns, before
  \<open>faceMesh.onResults\<close> is registered.
\<close>

definition startPresenceDetection :: "bool \<Rightarrow> kiosk \<Rightarrow> kiosk" where
  "startPresenceDetection camera_ok k =
     (if \<not> camera_ok then mainLoop k
      else (mainLoop k)\<lparr>onResultsInstalled := True\<rparr>)"

definition boot :: "bool \<Rightarrow> 'n page" where
  "boot camera_ok = \<lparr>glob = startPresenceDetection camera_ok kiosk_init, turns = []\<rparr>"

text \<open>A call \<open>await loopOnce()\<close> or \<open>loopOnce()\<close> made by a callback.\<close>

definition greet_done :: "bool \<Rightarrow> kiosk \<Rightarrow> kiosk" where
  "greet_done greeting k = (if greeting then k\<lparr>greetTimers := greetTimers k + 1\<rparr> else k)"

definition call_loopOnce :: "'n turn_env \<Rightarrow> bool \<Rightarrow> 'n page \<Rightarrow> 'n page" where
  "call_loopOnce env greeting s =
     (case loopOnce_begin (glob s) of
        (None, k') \<Rightarrow> s\<lparr>glob := greet_done greeting k'\<rparr>
      | (Some pc, k') \<Rightarrow> s\<lparr>glob := k', turns := turns s @ [(pc, env, greeting)]\<rparr>)"

text \<open>The \<open>i\<close>-th waiting call goes on to its next wait, or returns.\<close>

definition resume :: "'n arith \<Rightarrow> nat \<Rightarrow> 'n page \<Rightarrow> 'n page" where
  "resume A i s =
     (if i < length (turns s) then
        (case turns s ! i of (pc, env, greeting) \<Rightarrow>
           (case turn_step A env pc (glob s) of
              (Some pc', k') \<Rightarrow> s\<lparr>glob := k', turns := (turns s)[i := (pc', env, greeting)]\<rparr>
            | (None, k') \<Rightarrow>
                s\<lparr>glob := greet_done greeting k',
                  turns := take i (turns s) @ drop (Suc i) (turns s)\<rparr>))
      else s)"

text \<open>
  The callbacks of the page:
  \<^item> \<open>MainLoopTick\<close>: one round of the polling loop of \<open>mainLoop\<close> (every 1500 ms). The
    loop waits for the call it makes; allowing a round at any time only adds behaviours.
  \<^item> \<open>RetryClick\<close>: a click on the retry button of a toast.
  \<^item> \<open>Resume i\<close>: the wait of the \<open>i\<close>-th waiting call is over.
  \<^item> \<open>SafetyTimeout\<close>: a 30 s safety timeout of an earlier call fires (it is never
    cleared).
  \<^item> \<open>GreetTimeout\<close>: a 20 s timeout clears \<open>window.__greetedRecently\<close>.
  \<^item> \<open>FaceResults\<close>: Face Mesh delivers the results for a frame.
  \<^item> \<open>Elapse\<close>: time passes.
  \<^item> \<open>HoldTimeout h\<close>: the presence-hold timeout with handle \<open>h\<close> fires.
\<close>

datatype 'n event =
    MainLoopTick "'n turn_env"
  | RetryClick "'n turn_env"
  | Resume nat
  | SafetyTimeout
  | GreetTimeout
  | FaceResults "'n results"
  | Elapse nat
  | HoldTimeout nat

fun is_toast :: "effect \<Rightarrow> bool" where
  "is_toast (ShowToast t) = True"
| "is_toast e = False"

fun step :: "'n arith \<Rightarrow> 'n presence_cfg \<Rightarrow> 'n event \<Rightarrow> 'n page \<Rightarrow> 'n page" where
  "step A pcfg (MainLoopTick env) s =
     (if mainLoopStarted (glob s) \<and> presenceDetected (glob s) \<and> currentPhase (glob s) = Idle
      then
        if \<not> greetedRecently (glob s)
        then call_loopOnce env True (s\<lparr>glob := (glob s)\<lparr>greetedRecently := True\<rparr>\<rparr>)
        else call_loopOnce env False s
      else s)"
| "step A pcfg (RetryClick env) s =
     (if list_ex is_toast (effects (glob s)) \<and> \<not> busy (glob s)
      then call_loopOnce env False s
      else s)"
| "step A pcfg (Resume i) s = resume A i s"
| "step A pcfg SafetyTimeout s =
     (if 0 < safetyTimers (glob s)
      then s\<lparr>glob := (glob s)\<lparr>safetyTimers := safetyTimers (glob s) - 1,
                               isPlayingAudio := False, currentPhase := Idle\<rparr>\<rparr>
      else s)"
| "step A pcfg GreetTimeout s =
     (if 0 < greetTimers (glob s)
      then s\<lparr>glob := (glob s)\<lparr>greetTimers := greetTimers (glob s) - 1,
                               greetedRecently := False\<rparr>\<rparr>
      else s)"
| "step A pcfg (FaceResults res) s =
     (if onResultsInstalled (glob s) then s\<lparr>glob := onResults A pcfg res (glob s)\<rparr> else s)"
| "step A pcfg (Elapse d) s = s\<lparr>glob := (glob s)\<lparr>now := now (glob s) + d\<rparr>\<rparr>"
| "step A pcfg (HoldTimeout h) s = s\<lparr>glob := holdTimeout h (glob s)\<rparr>"

definition run :: "'n arith \<Rightarrow> 'n presence_cfg \<Rightarrow> 'n event list \<Rightarrow> 'n page \<Rightarrow> 'n page" where
  "run A pcfg evs s = fold (step A pcfg) evs s"

fun elapsed :: "'n event list \<Rightarrow> nat" where
  "elapsed [] = 0"
| "elapsed (Elapse d # evs) = d + elapsed evs"
| "elapsed (e # evs) = elapsed evs"

section \<open>Streaming mode: the handlers of the WebSocket\<close>

text \<open>
  A parsed text frame, by its \<open>type\<close>: the fields the handler reads. \<open>None\<close> is an
  absent field; an absent or empty \<open>emotion\<close> or \<open>gesture\<close> is falsy, as is a sample
  rate of 0. Any other \<open>type\<close> (\<open>error\<close> among them) has no branch.
\<close>

datatype stream_msg =
    UserText js_string
  | Answer js_string "js_string option" "js_string option"
  | AudioStart "nat option" "js_string option"
  | AudioEnd
  | OtherType

text \<open>
  A frame on the wire: text (\<open>None\<close> when \<open>JSON.parse\<close> throws on it, or gives
  \<open>null\<close>) or binary. What \<open>evt.data\<close> is for a binary frame depends on the
  socket's \<open>binaryType\<close>: an \<open>ArrayBuffer\<close> or a \<open>Blob\<close>.
\<close>

datatype ws_frame = TextFrame "stream_msg option" | BinaryFrame "8 word list"

datatype binary_type = ArrayBufferType | BlobType

datatype ws_data =
    StringData "stream_msg option"
  | ArrayBufferData "8 word list"
  | BlobData "8 word list"

datatype avatar_call = SetEmotion js_string | PlayGesture js_string

datatype status_text = IDLE_TEXT | LISTENING_TEXT

datatype log_role = Guest | Reception

text \<open>What \<open>audioCtx.resume()\<close> does when the handler waits for it: it resolves, it
  rejects (the handler's \<open>catch\<close> logs it), or it stays pending.\<close>

datatype resume_outcome = ResumeResolves | ResumeRejects | ResumePending

text \<open>
  The state the handlers act on: the page's globals, the socket (\<open>wsStream\<close> is not
  \<open>null\<close>, its \<open>binaryType\<close>), the MediaRecorder and the microphone tracks, the
  status line, \<open>currentAudioSampleRate\<close>, whether the playback AudioContext is
  suspended and what resuming it does, whether \<open>avatarController\<close> is set (the script
  declares it \<open>null\<close> and does not assign it; another script of the page may) and the
  calls made on it, the dialogue log, and the buffers given to \<open>src.start()\<close> with
  their sample rates.
\<close>

record stream_state =
  page_globals :: kiosk
  wsStream :: bool
  binaryType :: binary_type
  recorderActive :: bool
  micLive :: bool
  statusEl :: status_text
  currentAudioSampleRate :: nat
  audioCtxSuspended :: bool
  resumeOutcome :: resume_outcome
  avatarController :: bool
  avatarCalls :: "avatar_call list"
  dialogueLog :: "(log_role \<times> js_string) list"
  scheduled :: "(nat \<times> real list) list"

text \<open>After \<open>startWebSocketStreaming\<close> has connected, been triggered and started the
  recorder: \<open>wsStream.binaryType = 'arraybuffer'\<close>.\<close>

definition stream_open :: "bool \<Rightarrow> bool \<Rightarrow> resume_outcome \<Rightarrow> stream_state" where
  "stream_open avatar suspended outcome =
     \<lparr>page_globals = kiosk_init, wsStream = True, binaryType = ArrayBufferType,
      recorderActive = True, micLive = True, statusEl = LISTENING_TEXT,
      currentAudioSampleRate = 16000, audioCtxSuspended = suspended,
      resumeOutcome = outcome, avatarController = avatar, avatarCalls = [],
      dialogueLog = [], scheduled = []\<rparr>"

text \<open>\<open>new Int16Array(arrayBuffer)\<close> on a little-endian platform, for a buffer of even
  length.\<close>

fun int16_le :: "8 word list \<Rightarrow> 16 word list" where
  "int16_le (lo # hi # rest) = word_of_nat (unat lo + 256 * unat hi) # int16_le rest"
| "int16_le rest = []"

text \<open>
  \<open>playPcmChunk(arrayBuffer, sampleRate, audioCtx)\<close>, with the \<open>audioCtx\<close> of the
  caller (never \<open>null\<close>). \<open>new Int16Array\<close> throws a RangeError on a buffer of odd
  length and \<open>createBuffer\<close> throws on a length of 0; the caller's \<open>.catch\<close> logs
  the rejection. The sample rate is taken to be one the browser supports.
\<close>

definition playPcmChunk :: "8 word list \<Rightarrow> nat \<Rightarrow> stream_state \<Rightarrow> stream_state" where
  "playPcmChunk arrayBuffer sampleRate s =
     (if odd (length arrayBuffer) then s
      else
        let int16 = int16_le arrayBuffer;
            float32 = map (\<lambda>v. real_of_int (sint v) / 32768) int16
        in if length float32 = 0 then s
           else s\<lparr>scheduled := scheduled s @ [(sampleRate, float32)]\<rparr>)"

definition setEmotion :: "js_string \<Rightarrow> stream_state \<Rightarrow> stream_state" where
  "setEmotion e s = s\<lparr>avatarCalls := avatarCalls s @ [SetEmotion e]\<rparr>"

definition playGesture :: "js_string \<Rightarrow> stream_state \<Rightarrow> stream_state" where
  "playGesture g s = s\<lparr>avatarCalls := avatarCalls s @ [PlayGesture g]\<rparr>"

text \<open>
  \<open>wsStream.onmessage\<close>. Everything is inside one \<open>try\<close> whose \<open>catch\<close> only logs.
  On \<open>audio_start\<close> the handler assigns the sample rate, then, if the AudioContext
  is suspended, waits for \<open>audioCtx.resume()\<close>: the call on the avatar that follows
  is made only when that resolves.
  In the binary branch the handler calls \<open>evt.data.arrayBuffer()\<close>: a \<open>Blob\<close> has
  that method, an \<open>ArrayBuffer\<close> has not, and the call throws a TypeError.
\<close>

fun onmessage :: "ws_data \<Rightarrow> stream_state \<Rightarrow> stream_state" where
  "onmessage (StringData None) s = s"
| "onmessage (StringData (Some (UserText t))) s =
     s\<lparr>dialogueLog := dialogueLog s @ [(Guest, t)]\<rparr>"
| "onmessage (StringData (Some (Answer t emotion gesture))) s =
     (let s1 = s\<lparr>dialogueLog := dialogueLog s @ [(Reception, t)]\<rparr> in
      if avatarController s1 then
        let s2 = (case emotion of
                    None \<Rightarrow> s1
                  | Some e \<Rightarrow> if e \<noteq> [] then setEmotion e s1 else s1)
        in (case gesture of
              None \<Rightarrow> s2
            | Some g \<Rightarrow> if g \<noteq> [] then playGesture g s2 else s2)
      else s1)"
| "onmessage (StringData (Some (AudioStart sampleRate emotion))) s =
     (let s1 = s\<lparr>currentAudioSampleRate :=
                   (case sampleRate of None \<Rightarrow> 16000 | Some r \<Rightarrow> if r = 0 then 16000 else r)\<rparr>
      in if audioCtxSuspended s1 \<and> resumeOutcome s1 \<noteq> ResumeResolves then s1
         else
           let s2 = s1\<lparr>audioCtxSuspended := False\<rparr>
           in if avatarController s2 then
                (case emotion of
                   None \<Rightarrow> setEmotion (ascii ''happy'') s2
                 | Some e \<Rightarrow> if e \<noteq> [] then setEmotion e s2
                             else setEmotion (ascii ''happy'') s2)
              else s2)"
| "onmessage (StringData (Some AudioEnd)) s =
     (if avatarController s then setEmotion (ascii ''neutral'') s else s)"
| "onmessage (StringData (Some OtherType)) s = s"
| "onmessage (ArrayBufferData bytes) s = s"
| "onmessage (BlobData bytes) s = playPcmChunk bytes (currentAudioSampleRate s) s"

text \<open>\<open>wsStream.onclose\<close>.\<close>

definition onclose :: "stream_state \<Rightarrow> stream_state" where
  "onclose s = s\<lparr>recorderActive := False, micLive := False, wsStream := False,
                 statusEl := IDLE_TEXT\<rparr>"

text \<open>The browser: a frame arrives and is handed to \<open>onmessage\<close> in the form that
  \<open>binaryType\<close> asks for, or the socket closes.\<close>

definition deliver :: "binary_type \<Rightarrow> ws_frame \<Rightarrow> ws_data" where
  "deliver bt frame =
     (case frame of
        TextFrame m \<Rightarrow> StringData m
      | BinaryFrame bytes \<Rightarrow>
          (case bt of ArrayBufferType \<Rightarrow> ArrayBufferData bytes | BlobType \<Rightarrow> BlobData bytes))"

datatype stream_event = Receive ws_frame | Closed

fun stream_step :: "stream_event \<Rightarrow> stream_state \<Rightarrow> stream_state" where
  "stream_step (Receive frame) s =
     (if wsStream s then onmessage (deliver (binaryType s) frame) s else s)"
| "stream_step Closed s = (if wsStream s then onclose s else s)"

definition stream_run :: "stream_event list \<Rightarrow> stream_state \<Rightarrow> stream_state" where
  "stream_run evs s = fold stream_step evs s"

text \<open>
  Predicates used to state the trigger property. A window is loud when the square root
  of the mean of the squares of its samples, computed from left to right, is at least
  0.02; the other three say where loud windows stand in a sequence.
\<close>

definition loud :: "'n arith \<Rightarrow> 'n list \<Rightarrow> bool" where
  "loud A w =
     fl_ge A
       (fl_sqrt A
          (fl_div A (fold (\<lambda>x sum. fl_add A sum (fl_mul A x x)) w (fl_num A 0))
             (fl_num A (real (length w)))))
       (fl_num A (2 / 100))"

definition three_loud :: "'n arith \<Rightarrow> 'n list list \<Rightarrow> bool" where
  "three_loud A ws =
     (\<exists>pre a b c post. ws = pre @ a # b # c # post \<and> loud A a \<and> loud A b \<and> loud A c)"

definition two_loud_end :: "'n arith \<Rightarrow> 'n list list \<Rightarrow> bool" where
  "two_loud_end A ws = (\<exists>pre a b. ws = pre @ [a, b] \<and> loud A a \<and> loud A b)"

definition one_loud_end :: "'n arith \<Rightarrow> 'n list list \<Rightarrow> bool" where
  "one_loud_end A ws = (\<exists>pre a. ws = pre @ [a] \<and> loud A a)"

text \<open>
  Notions used to state the property of the subtitle formatter. The words of a text are
  its maximal runs of code units that are not white space, in order: \<open>words_of\<close> says
  so directly, skipping white space, taking the run that follows and going on behind it;
  \<open>subtitle_words\<close> are the non-empty pieces the formatter's own splitting gives. A
  line is a group of words joined by single spaces.
\<close>

function words_of :: "js_string \<Rightarrow> js_string list" where
  "words_of s =
     (case dropWhile is_ws s of
        [] \<Rightarrow> []
      | c # cs \<Rightarrow>
          takeWhile (\<lambda>u. \<not> is_ws u) (c # cs) # words_of (dropWhile (\<lambda>u. \<not> is_ws u) cs))"
  by pat_completeness auto
termination
proof (relation "measure length")
  show "wf (measure length)" by simp
next
  fix s :: js_string and c cs
  assume d: "dropWhile is_ws s = c # cs"
  have "length (dropWhile (\<lambda>u. \<not> is_ws u) cs) \<le> length cs" by (rule length_dropWhile_le)
  moreover have "length (c # cs) \<le> length s"
    using length_dropWhile_le [of is_ws s] d by simp
  ultimately show "(dropWhile (\<lambda>u. \<not> is_ws u) cs, s) \<in> measure length" by simp
qed

declare words_of.simps [simp del]

definition subtitle_words :: "js_string option \<Rightarrow> js_string list" where
  "subtitle_words text =
     filter (\<lambda>w. w \<noteq> []) (split_ws (trim (case text of None \<Rightarrow> [] | Some t \<Rightarrow> t)))"

fun join_words :: "js_string list \<Rightarrow> js_string" where
  "join_words [] = []"
| "join_words [w] = w"
| "join_words (w # v # ws) = w @ [space] @ join_words (v # ws)"

text \<open>A group of words as the loop builds it: non-empty words, and within the limit
  as soon as it has more than one word.\<close>

definition group_ok :: "nat \<Rightarrow> js_string list \<Rightarrow> bool" where
  "group_ok m g \<longleftrightarrow> g \<noteq> [] \<and> (\<forall>w\<in>set g. w \<noteq> []) \<and> (1 < length g \<longrightarrow> length (join_words g) \<le> m)"

text \<open>At most one call of \<open>loopOnce\<close> is past its guard, and \<open>busy\<close> says whether
  there is one.\<close>

definition one_turn :: "'n page \<Rightarrow> bool" where
  "one_turn s \<longleftrightarrow> length (turns s) \<le> 1 \<and> (busy (glob s) \<longleftrightarrow> turns s \<noteq> [])"

text \<open>
  A qualifying frame, written out: it has a face of at least 264 landmarks; the distance
  of the eyes (landmarks 33 and 263) in pixels over the width of the video is at least
  the near or the medium threshold; both pixel offsets of the nose (landmark 1) from the
  middle of the eyes are below the tolerance; and the nose lies inside the region of
  interest, bounds included. Then the well-formedness of the pending hold timeouts: each
  is the one whose handle \<open>presenceTimer\<close> holds.
\<close>

definition qualifies :: "'n arith \<Rightarrow> 'n presence_cfg \<Rightarrow> 'n results \<Rightarrow> bool" where
  "qualifies A pcfg res =
     (case multiFaceLandmarks res of
        [] \<Rightarrow> False
      | landmarks # others \<Rightarrow>
          263 < length landmarks \<and>
          (let leftEye = landmarks ! 33; rightEye = landmarks ! 263; nose = landmarks ! 1;
               w = fl_num A (real (videoWidth res)); h = fl_num A (real (videoHeight res));
               dx = fl_mul A (fl_sub A (pt_x rightEye) (pt_x leftEye)) w;
               dy = fl_mul A (fl_sub A (pt_y rightEye) (pt_y leftEye)) h;
               eyeNorm = fl_div A (fl_sqrt A (fl_add A (fl_mul A dx dx) (fl_mul A dy dy))) w;
               horiz = fl_mul A (fl_abs A (fl_sub A
                         (fl_div A (fl_add A (pt_x leftEye) (pt_x rightEye)) (fl_num A 2))
                         (pt_x nose))) w;
               vert = fl_mul A (fl_abs A (fl_sub A
                        (fl_div A (fl_add A (pt_y leftEye) (pt_y rightEye)) (fl_num A 2))
                        (pt_y nose))) h;
               nearT = (case nearThreshold pcfg of None \<Rightarrow> fl_num A (10 / 100) | Some v \<Rightarrow> v);
               medT = (case mediumThreshold pcfg of None \<Rightarrow> fl_num A (7 / 100) | Some v \<Rightarrow> v);
               tolerance = (case attentionTolerancePx pcfg of None \<Rightarrow> fl_num A 80 | Some v \<Rightarrow> v);
               r = (case cfg_roi pcfg of
                      None \<Rightarrow> \<lparr>roi_top = fl_num A 0, roi_left = fl_num A 0,
                                roi_width = fl_num A 1, roi_height = fl_num A 1\<rparr>
                    | Some r \<Rightarrow> r)
           in (fl_ge A eyeNorm nearT \<or> fl_ge A eyeNorm medT) \<and>
              fl_lt A horiz tolerance \<and> fl_lt A vert tolerance \<and>
              fl_ge A (pt_x nose) (roi_left r) \<and>
              fl_le A (pt_x nose) (fl_add A (roi_left r) (roi_width r)) \<and>
              fl_ge A (pt_y nose) (roi_top r) \<and>
              fl_le A (pt_y nose) (fl_add A (roi_top r) (roi_height r))))"

definition presence_wf :: "kiosk \<Rightarrow> bool" where
  "presence_wf k \<longleftrightarrow>
     nextTimerId k \<noteq> 0 \<and> (\<forall>(i, due)\<in>set (timeouts k). presenceTimer k = Some i \<and> i \<noteq> 0)"

text \<open>The page after the camera was refused: no handler, no presence, no turn, nothing shown.\<close>

definition camera_denied :: "'n page \<Rightarrow> bool" where
  "camera_denied s \<longleftrightarrow>
     \<not> onResultsInstalled (glob s) \<and> \<not> presenceDetected (glob s) \<and> \<not> busy (glob s) \<and>
     mainLoopStarted (glob s) \<and> turns s = [] \<and> effects (glob s) = [] \<and> timeouts (glob s) = []"

section \<open>Example inputs\<close>

text \<open>
  Outcomes of the waits of one call of \<open>loopOnce\<close>: a capture that fails; a capture of
  near silence (one channel); a capture that cannot be decoded and whose request then
  fails; a capture of two channels of which the first is silent and the second is not.
\<close>

definition env_capture_fails :: "real turn_env" where
  "env_capture_fails =
     \<lparr>recorded = None, decoded = None, response = None, render_ok = True, play_ok = True,
      ended_by_timeout = False, switch_ok = True\<rparr>"

definition env_quiet :: "real turn_env" where
  "env_quiet =
     \<lparr>recorded = Some [26, 69], decoded = Some [[1 / 1024, - 1 / 1024]], response = None,
      render_ok = True, play_ok = True, ended_by_timeout = False, switch_ok = True\<rparr>"

definition env_undecodable :: "real turn_env" where
  "env_undecodable =
     \<lparr>recorded = Some [26, 69], decoded = None, response = None,
      render_ok = True, play_ok = True, ended_by_timeout = False, switch_ok = True\<rparr>"

definition env_second_channel :: "real turn_env" where
  "env_second_channel =
     \<lparr>recorded = Some [26, 69], decoded = Some [[0, 0], [1, 0]], response = None,
      render_ok = True, play_ok = True, ended_by_timeout = False, switch_ok = True\<rparr>"

text \<open>
  A 320 x 240 frame with one face of 478 landmarks: eyes level and a quarter of the
  frame apart, nose slightly below the middle of the eyes. The same face further away.
  A frame without a face. All coordinates are doubles.
\<close>

definition face_near :: "real results" where
  "face_near =
     \<lparr>videoWidth = 320, videoHeight = 240,
      multiFaceLandmarks =
        [(replicate 478 \<lparr>pt_x = 1 / 2, pt_y = 1 / 2\<rparr>)
           [33 := \<lparr>pt_x = 3 / 8, pt_y = 1 / 2\<rparr>,
            263 := \<lparr>pt_x = 5 / 8, pt_y = 1 / 2\<rparr>,
            1 := \<lparr>pt_x = 1 / 2, pt_y = 9 / 16\<rparr>]]\<rparr>"

definition face_far :: "real results" where
  "face_far =
     \<lparr>videoWidth = 320, videoHeight = 240,
      multiFaceLandmarks =
        [(replicate 478 \<lparr>pt_x = 1 / 2, pt_y = 1 / 2\<rparr>)
           [33 := \<lparr>pt_x = 31 / 64, pt_y = 1 / 2\<rparr>,
            263 := \<lparr>pt_x = 33 / 64, pt_y = 1 / 2\<rparr>,
            1 := \<lparr>pt_x = 1 / 2, pt_y = 33 / 64\<rparr>]]\<rparr>"

definition no_face :: "real results" where
  "no_face = \<lparr>videoWidth = 320, videoHeight = 240, multiFaceLandmarks = []\<rparr>"

text \<open>The configuration without any key; one whose region of interest is the strip
  between 7/16 and 9/16 of the width; one whose \<open>holdMs\<close> is \<open>2^31\<close>.\<close>

definition default_cfg :: "real presence_cfg" where
  "default_cfg =
     \<lparr>cfg_roi = None, attentionTolerancePx = None, nearThreshold = None,
      mediumThreshold = None, holdMs = None\<rparr>"

definition cfg_strip :: "real presence_cfg" where
  "cfg_strip =
     \<lparr>cfg_roi = Some \<lparr>roi_top = 0, roi_left = 7 / 16, roi_width = 1 / 8, roi_height = 1\<rparr>,
      attentionTolerancePx = None, nearThreshold = None, mediumThreshold = None,
      holdMs = None\<rparr>"

definition cfg_long_hold :: "real presence_cfg" where
  "cfg_long_hold =
     \<lparr>cfg_roi = None, attentionTolerancePx = None, nearThreshold = None,
      mediumThreshold = None, holdMs = Some 2147483648\<rparr>"

text \<open>The channel announces audio at 16 kHz and is then closed; the same with one PCM
  frame of two samples in between.\<close>

definition close_mid_turn :: "stream_event list" where
  "close_mid_turn = [Receive (TextFrame (Some (AudioStart (Some 16000) None))), Closed]"

definition one_pcm_frame :: "stream_event list" where
  "one_pcm_frame =
     [Receive (TextFrame (Some (AudioStart (Some 16000) None))),
      Receive (BinaryFrame [0x00, 0x40, 0x00, 0xC0]),
      Receive (TextFrame (Some AudioEnd))]"

section \<open>Properties of the streaming trigger\<close>

lemma three_loud_snoc: "three_loud A (ws @ [w]) = (three_loud A ws \<or> (two_loud_end A ws \<and> loud A w))"
proof
  assume "three_loud A (ws @ [w])"
  then obtain pre a b c post where e: "ws @ [w] = pre @ a # b # c # post"
    and l: "loud A a" "loud A b" "loud A c"
    unfolding three_loud_def by blast
  show "three_loud A ws \<or> (two_loud_end A ws \<and> loud A w)"
  proof (cases post rule: rev_cases)
    case Nil
    with e have "ws @ [w] = (pre @ [a, b]) @ [c]" by simp
    then have "ws = pre @ [a, b]" "w = c" by (simp_all only: append1_eq_conv)
    with l show ?thesis unfolding two_loud_end_def by blast
  next
    case (snoc post' x)
    with e have "ws @ [w] = (pre @ a # b # c # post') @ [x]" by simp
    then have "ws = pre @ a # b # c # post'" by (simp only: append1_eq_conv)
    with l show ?thesis unfolding three_loud_def by blast
  qed
next
  assume "three_loud A ws \<or> (two_loud_end A ws \<and> loud A w)"
  then show "three_loud A (ws @ [w])"
  proof
    assume "three_loud A ws"
    then obtain pre a b c post where "ws = pre @ a # b # c # post" "loud A a" "loud A b" "loud A c"
      unfolding three_loud_def by blast
    then have "ws @ [w] = pre @ a # b # c # (post @ [w])" by simp
    with \<open>loud A a\<close> \<open>loud A b\<close> \<open>loud A c\<close> show ?thesis unfolding three_loud_def by blast
  next
    assume "two_loud_end A ws \<and> loud A w"
    then obtain pre a b where "ws = pre @ [a, b]" "loud A a" "loud A b" "loud A w"
      unfolding two_loud_end_def by blast
    then have "ws @ [w] = pre @ a # b # w # []" by simp
    with \<open>loud A a\<close> \<open>loud A b\<close> \<open>loud A w\<close> show ?thesis unfolding three_loud_def by blast
  qed
qed

lemma two_loud_end_snoc: "two_loud_end A (ws @ [w]) = (one_loud_end A ws \<and> loud A w)"
proof
  assume "two_loud_end A (ws @ [w])"
  then obtain pre a b where e: "ws @ [w] = pre @ [a, b]" and l: "loud A a" "loud A b"
    unfolding two_loud_end_def by blast
  from e have "ws @ [w] = (pre @ [a]) @ [b]" by simp
  then have "ws = pre @ [a]" "w = b" by (simp_all only: append1_eq_conv)
  with l show "one_loud_end A ws \<and> loud A w" unfolding one_loud_end_def by blast
next
  assume "one_loud_end A ws \<and> loud A w"
  then obtain pre a where "ws = pre @ [a]" "loud A a" "loud A w"
    unfolding one_loud_end_def by blast
  then have "ws @ [w] = pre @ [a, w]" by simp
  with \<open>loud A a\<close> \<open>loud A w\<close> show "two_loud_end A (ws @ [w])" unfolding two_loud_end_def by blast
qed

lemma one_loud_end_snoc: "one_loud_end A (ws @ [w]) = loud A w"
  unfolding one_loud_end_def by auto

lemma check_loud: "fl_ge A (sampleRms A w) (RMS_THRESHOLD A) = loud A w"
  by (simp add: loud_def sampleRms_def RMS_THRESHOLD_def)

lemma wait_for_audio_snoc: "wait_for_audio A (ws @ [w]) = check A w (wait_for_audio A ws)"
  by (simp add: wait_for_audio_def)

lemma wait_for_audio_inv:
  "resolved (wait_for_audio A ws) = three_loud A ws \<and>
   (\<not> resolved (wait_for_audio A ws) \<longrightarrow>
      consecutive (wait_for_audio A ws) < 3 \<and>
      (1 \<le> consecutive (wait_for_audio A ws)) = one_loud_end A ws \<and>
      (2 \<le> consecutive (wait_for_audio A ws)) = two_loud_end A ws)"
proof (induction ws rule: rev_induct)
  case Nil
  show ?case
    by (simp add: wait_for_audio_def trigger_init_def three_loud_def one_loud_end_def
        two_loud_end_def)
next
  case (snoc w ws)
  show ?case
  proof (cases "resolved (wait_for_audio A ws)")
    case True
    with snoc show ?thesis
      by (simp add: wait_for_audio_snoc check_def three_loud_snoc)
  next
    case False
    with snoc show ?thesis
      by (auto simp add: wait_for_audio_snoc check_def three_loud_snoc two_loud_end_snoc
          one_loud_end_snoc Let_def REQUIRED_FRAMES_def check_loud)
  qed
qed

text \<open>
  C4. Emission (the resolution of the polling promise, after which the MediaRecorder is
  started) happens exactly when the sampled windows contain three consecutive windows
  whose RMS, the square root of the mean of the squared samples as the page computes it,
  is at least 0.02; a window whose RMS is not at least 0.02 puts the counter back to
  zero and does not resolve. So a sequence without three consecutive loud windows, such
  as a loud window followed by a quiet one, never triggers.
\<close>

theorem streaming_trigger_three_consecutive:
  "(let rms = (\<lambda>w. fl_sqrt A
                  (fl_div A (fold (\<lambda>x sum. fl_add A sum (fl_mul A x x)) w (fl_num A 0))
                     (fl_num A (real (length w)))))
    in (resolved (wait_for_audio A windows) \<longleftrightarrow>
          (\<exists>pre a b c post. windows = pre @ a # b # c # post \<and>
             fl_ge A (rms a) (fl_num A (2 / 100)) \<and> fl_ge A (rms b) (fl_num A (2 / 100)) \<and>
             fl_ge A (rms c) (fl_num A (2 / 100)))) \<and>
       (\<forall>s w. \<not> resolved s \<and> \<not> fl_ge A (rms w) (fl_num A (2 / 100)) \<longrightarrow>
          consecutive (check A w s) = 0 \<and> \<not> resolved (check A w s)) \<and>
       (\<forall>s w. \<not> resolved s \<and> fl_ge A (rms w) (fl_num A (2 / 100)) \<longrightarrow>
          consecutive (check A w s) = consecutive s + 1 \<and>
          (resolved (check A w s) \<longleftrightarrow> 3 \<le> consecutive s + 1)))"
proof -
  have "resolved (wait_for_audio A windows) = three_loud A windows"
    using wait_for_audio_inv [of A windows] by blast
  moreover have "\<forall>s w. \<not> resolved s \<and> \<not> loud A w \<longrightarrow>
      consecutive (check A w s) = 0 \<and> \<not> resolved (check A w s)"
    by (simp add: check_def Let_def REQUIRED_FRAMES_def check_loud)
  moreover have "\<forall>s w. \<not> resolved s \<and> loud A w \<longrightarrow>
      consecutive (check A w s) = consecutive s + 1 \<and>
      (resolved (check A w s) \<longleftrightarrow> 3 \<le> consecutive s + 1)"
    by (simp add: check_def Let_def REQUIRED_FRAMES_def check_loud)
  ultimately show ?thesis
    unfolding Let_def three_loud_def loud_def by blast
qed

theorem streaming_trigger_three_consecutive_witness:
  "resolved (wait_for_audio exact [[1], [1], [1]]) \<and>
   \<not> resolved (wait_for_audio exact [[1], [0]]) \<and>
   consecutive (check exact [0] (check exact [1] trigger_init)) = 0 \<and>
   consecutive (check exact [1] trigger_init) = 1"
proof -
  note inst = streaming_trigger_three_consecutive [where A = exact, unfolded Let_def]
  have l: "fl_ge exact (fl_sqrt exact (fl_div exact
      (fold (\<lambda>x sum. fl_add exact sum (fl_mul exact x x)) [1] (fl_num exact 0))
      (fl_num exact (real (length [1 :: real]))))) (fl_num exact (2 / 100))"
    by (simp add: exact_def)
  have "[[1], [1], [1]] = [] @ [1] # [1] # [1] # ([] :: real list list)"
    by simp
  with l have a: "resolved (wait_for_audio exact [[1], [1], [1]])"
    using inst [of "[[1], [1], [1]]"] by blast
  have q: "\<not> fl_ge exact (fl_sqrt exact (fl_div exact
      (fold (\<lambda>x sum. fl_add exact sum (fl_mul exact x x)) [0] (fl_num exact 0))
      (fl_num exact (real (length [0 :: real]))))) (fl_num exact (2 / 100))"
    by (simp add: exact_def)
  have n0: "\<not> resolved trigger_init" "consecutive trigger_init = 0"
    by (simp_all add: trigger_init_def)
  from l n0 have c1: "consecutive (check exact [1] trigger_init) = 1 \<and>
      \<not> resolved (check exact [1] trigger_init)"
    using inst [of "[]"] by auto
  with q have b: "consecutive (check exact [0] (check exact [1] trigger_init)) = 0 \<and>
      \<not> resolved (check exact [0] (check exact [1] trigger_init))"
    using inst [of "[]"] by blast
  then have "\<not> resolved (wait_for_audio exact [[1], [0]])"
    by (simp add: wait_for_audio_def)
  with a b c1 show ?thesis by blast
qed

section \<open>Properties of the subtitle formatter\<close>

lemma join_words_snoc: "g \<noteq> [] \<Longrightarrow> join_words (g @ [w]) = join_words g @ [space] @ w"
  by (induction g rule: join_words.induct) auto

lemma join_words_nonempty: "g \<noteq> [] \<Longrightarrow> \<forall>w\<in>set g. w \<noteq> [] \<Longrightarrow> join_words g \<noteq> []"
  by (induction g rule: join_words.induct) auto

lemma wrap_loop_groups:
  "\<forall>w\<in>set ws. w \<noteq> [] \<Longrightarrow> \<forall>x\<in>set gs. group_ok m x \<Longrightarrow> g = [] \<or> group_ok m g \<Longrightarrow>
   \<exists>gs' g'. wrap_loop m ws (map join_words gs, join_words g) = (map join_words gs', join_words g') \<and>
      (\<forall>x\<in>set gs'. group_ok m x) \<and> (g' = [] \<or> group_ok m g') \<and>
      concat gs' @ g' = concat gs @ g @ ws"
proof (induction ws arbitrary: gs g)
  case Nil
  then show ?case by auto
next
  case (Cons w ws)
  from Cons.prems have w: "w \<noteq> []" and ws: "\<forall>w\<in>set ws. w \<noteq> []" by auto
  show ?case
  proof (cases "g = []")
    case True
    have "group_ok m [w]" using w by (simp add: group_ok_def)
    then obtain gs' g' where
      "wrap_loop m ws (map join_words gs, join_words [w]) = (map join_words gs', join_words g')"
      "\<forall>x\<in>set gs'. group_ok m x" "g' = [] \<or> group_ok m g'"
      "concat gs' @ g' = concat gs @ [w] @ ws"
      using Cons.IH [OF ws Cons.prems(2), of "[w]"] by blast
    with True show ?thesis by auto
  next
    case False
    with Cons.prems have g: "group_ok m g" by simp
    then have ne: "join_words g \<noteq> []"
      by (simp add: group_ok_def join_words_nonempty)
    show ?thesis
    proof (cases "length (join_words g @ [space] @ w) \<le> m")
      case True
      have "group_ok m (g @ [w])"
        using g w True False by (auto simp add: group_ok_def join_words_snoc)
      then obtain gs' g' where
        "wrap_loop m ws (map join_words gs, join_words (g @ [w])) = (map join_words gs', join_words g')"
        "\<forall>x\<in>set gs'. group_ok m x" "g' = [] \<or> group_ok m g'"
        "concat gs' @ g' = concat gs @ (g @ [w]) @ ws"
        using Cons.IH [OF ws Cons.prems(2), of "g @ [w]"] by blast
      with True ne False show ?thesis by (auto simp add: join_words_snoc)
    next
      case no: False
      have a: "\<forall>x\<in>set (gs @ [g]). group_ok m x" using Cons.prems(2) g by auto
      have "group_ok m [w]" using w by (simp add: group_ok_def)
      then obtain gs' g' where
        "wrap_loop m ws (map join_words (gs @ [g]), join_words [w]) = (map join_words gs', join_words g')"
        "\<forall>x\<in>set gs'. group_ok m x" "g' = [] \<or> group_ok m g'"
        "concat gs' @ g' = concat (gs @ [g]) @ [w] @ ws"
        using Cons.IH [OF ws a, of "[w]"] by blast
      with no ne show ?thesis by auto
    qed
  qed
qed

lemma split_go_pieces:
  "s = [] \<or> \<not> is_ws (last s) \<Longrightarrow> cur = [] \<longrightarrow> s \<noteq> [] \<and> (in_sep \<or> \<not> is_ws (hd s)) \<Longrightarrow>
   \<forall>c\<in>set cur. \<not> is_ws c \<Longrightarrow>
   \<forall>w\<in>set (split_go in_sep cur s). w \<noteq> [] \<and> (\<forall>c\<in>set w. \<not> is_ws c)"
proof (induction s arbitrary: in_sep cur)
  case Nil
  then show ?case by simp
next
  case (Cons c cs)
  show ?case
  proof (cases "is_ws c")
    case True
    with Cons.prems(1) have cs: "cs \<noteq> []" by auto
    with Cons.prems(1) have l: "cs = [] \<or> \<not> is_ws (last cs)" by simp
    have r: "\<forall>w\<in>set (split_go True [] cs). w \<noteq> [] \<and> (\<forall>c\<in>set w. \<not> is_ws c)"
      using Cons.IH [OF l, of "[]" True] cs by simp
    show ?thesis
    proof (cases in_sep)
      case t: True
      have "\<forall>w\<in>set (split_go True cur cs). w \<noteq> [] \<and> (\<forall>c\<in>set w. \<not> is_ws c)"
        using Cons.IH [OF l, of cur True] cs Cons.prems(3) by simp
      with True t show ?thesis by simp
    next
      case f: False
      with Cons.prems(2) True have "cur \<noteq> []" by auto
      with True f r Cons.prems(3) show ?thesis by simp
    qed
  next
    case False
    from Cons.prems(1) have l: "cs = [] \<or> \<not> is_ws (last cs)" by (auto split: if_splits)
    have "\<forall>w\<in>set (split_go False (cur @ [c]) cs). w \<noteq> [] \<and> (\<forall>c\<in>set w. \<not> is_ws c)"
      using Cons.IH [OF l, of "cur @ [c]" False] False Cons.prems(3) by simp
    with False show ?thesis by simp
  qed
qed

lemma trim_last: "trim s = [] \<or> \<not> is_ws (last (trim s))"
proof (cases "dropWhile is_ws (rev (dropWhile is_ws s)) = []")
  case True
  then show ?thesis by (simp add: trim_def)
next
  case False
  then have "\<not> is_ws (hd (dropWhile is_ws (rev (dropWhile is_ws s))))"
    by (rule hd_dropWhile)
  with False show ?thesis by (simp add: trim_def last_rev)
qed

lemma trim_hd: "trim s = [] \<or> \<not> is_ws (hd (trim s))"
proof (cases "trim s = []")
  case True
  then show ?thesis by simp
next
  case False
  let ?xs = "dropWhile is_ws s"
  have e: "?xs = trim s @ rev (takeWhile is_ws (rev ?xs))"
    unfolding trim_def
    by (metis rev_append rev_rev_ident takeWhile_dropWhile_id)
  from e False have x: "?xs \<noteq> []" by (metis append_is_Nil_conv)
  then have "\<not> is_ws (hd ?xs)" by (rule hd_dropWhile)
  moreover from e False have "hd ?xs = hd (trim s)" by (metis hd_append2)
  ultimately show ?thesis by simp
qed

lemma split_trim_pieces:
  "split_ws (trim s) = [[]] \<or> (\<forall>w\<in>set (split_ws (trim s)). w \<noteq> [] \<and> (\<forall>c\<in>set w. \<not> is_ws c))"
proof (cases "trim s = []")
  case True
  then show ?thesis by (simp add: split_ws_def)
next
  case False
  with trim_hd [of s] have "\<not> is_ws (hd (trim s))" by simp
  with False trim_last [of s] show ?thesis
    unfolding split_ws_def by (intro disjI2 split_go_pieces) auto
qed


text \<open>The formatter's splitting gives the words of the text.\<close>

lemma words_of_Nil: "words_of [] = []"
  by (simp add: words_of.simps)

lemma words_of_all_ws: "\<forall>u\<in>set s. is_ws u \<Longrightarrow> words_of s = []"
proof -
  assume "\<forall>u\<in>set s. is_ws u"
  then have d: "dropWhile is_ws s = []" by simp
  show ?thesis by (subst words_of.simps) (simp only: d list.case)
qed

lemma words_of_ws: "is_ws c \<Longrightarrow> words_of (c # cs) = words_of cs"
  by (simp add: words_of.simps [of "c # cs"] words_of.simps [of cs])

lemma words_of_word:
  assumes "cur \<noteq> []" "\<forall>u\<in>set cur. \<not> is_ws u" "rest = [] \<or> is_ws (hd rest)"
  shows "words_of (cur @ rest) = cur # words_of rest"
proof -
  obtain c cs where cur: "cur = c # cs" using assms(1) by (cases cur) auto
  with assms(2) have c: "\<not> is_ws c" and cs: "\<forall>u\<in>set cs. \<not> is_ws u" by simp_all
  have d: "dropWhile is_ws (cur @ rest) = c # (cs @ rest)" using cur c by simp
  have t: "takeWhile (\<lambda>u. \<not> is_ws u) (c # (cs @ rest)) = c # cs"
    using c cs assms(3) by (cases rest) (simp_all add: takeWhile_append2)
  have r: "dropWhile (\<lambda>u. \<not> is_ws u) (cs @ rest) = rest"
    using cs assms(3) by (cases rest) (simp_all add: dropWhile_append2)
  have "words_of (c # (cs @ rest)) =
      takeWhile (\<lambda>u. \<not> is_ws u) (c # (cs @ rest)) #
      words_of (dropWhile (\<lambda>u. \<not> is_ws u) (cs @ rest))"
    using c by (subst words_of.simps) simp
  then show ?thesis using t r cur by simp
qed

lemma split_go_words:
  "\<forall>u\<in>set cur. \<not> is_ws u \<Longrightarrow> in_sep \<longrightarrow> cur = [] \<Longrightarrow>
   filter (\<lambda>w. w \<noteq> []) (split_go in_sep cur s) = words_of (cur @ s)"
proof (induction s arbitrary: in_sep cur)
  case Nil
  show ?case
  proof (cases "cur = []")
    case True
    then show ?thesis by (simp add: words_of_Nil)
  next
    case False
    with Nil.prems(1) words_of_word [of cur "[]"] show ?thesis by (simp add: words_of_Nil)
  qed
next
  case (Cons c cs)
  show ?case
  proof (cases "is_ws c")
    case False
    with Cons.prems have "filter (\<lambda>w. w \<noteq> []) (split_go False (cur @ [c]) cs) = words_of ((cur @ [c]) @ cs)"
      by (intro Cons.IH) auto
    with False show ?thesis by simp
  next
    case True
    have r: "filter (\<lambda>w. w \<noteq> []) (split_go True [] cs) = words_of cs"
      using Cons.IH [of "[]" True] by simp
    show ?thesis
    proof (cases "cur = []")
      case e: True
      with True r show ?thesis by (simp add: words_of_ws)
    next
      case ne: False
      with Cons.prems(2) have "\<not> in_sep" by auto
      moreover have "words_of (cur @ c # cs) = cur # words_of (c # cs)"
        using ne Cons.prems(1) True by (intro words_of_word) simp_all
      ultimately show ?thesis using True r ne by (simp add: words_of_ws)
    qed
  qed
qed

lemma words_of_dropWhile: "words_of (dropWhile is_ws s) = words_of s"
  by (induction s) (simp_all add: words_of_ws)

lemma words_of_trailing: "\<forall>u\<in>set t. is_ws u \<Longrightarrow> words_of (xs @ t) = words_of xs"
proof (induction xs rule: length_induct)
  case (1 xs)
  assume t: "\<forall>u\<in>set t. is_ws u"
  show ?case
  proof (cases "dropWhile is_ws xs")
    case Nil
    then have a: "\<forall>u\<in>set xs. is_ws u" by (simp add: dropWhile_eq_Nil_conv)
    with t have "\<forall>u\<in>set (xs @ t). is_ws u" by auto
    with a show ?thesis by (simp only: words_of_all_ws)
  next
    case (Cons c cs)
    have c: "\<not> is_ws c" using hd_dropWhile [of is_ws xs] Cons by simp
    define w where "w = c # takeWhile (\<lambda>u. \<not> is_ws u) cs"
    define r where "r = dropWhile (\<lambda>u. \<not> is_ws u) cs"
    have split: "c # cs = w @ r" by (simp add: w_def r_def)
    have w: "w \<noteq> []" "\<forall>u\<in>set w. \<not> is_ws u"
      using c by (auto simp add: w_def dest: set_takeWhileD)
    have rr: "r = [] \<or> is_ws (hd r)"
      unfolding r_def using hd_dropWhile [of "\<lambda>u. \<not> is_ws u" cs] by blast
    have rt: "r @ t = [] \<or> is_ws (hd (r @ t))"
    proof (cases r)
      case Nil
      with t show ?thesis by (cases t) simp_all
    next
      case (Cons a as)
      with rr show ?thesis by simp
    qed
    have len: "length r < length xs"
    proof -
      have "length r \<le> length cs" unfolding r_def by (rule length_dropWhile_le)
      moreover have "length (dropWhile is_ws xs) \<le> length xs" by (rule length_dropWhile_le)
      ultimately show ?thesis by (simp add: Cons)
    qed
    have d: "dropWhile is_ws (xs @ t) = (w @ r) @ t"
    proof -
      have "c \<in> set (dropWhile is_ws xs)" by (simp add: Cons)
      then have "c \<in> set xs" by (rule set_dropWhileD)
      then have "dropWhile is_ws (xs @ t) = dropWhile is_ws xs @ t"
        using c by (rule dropWhile_append1)
      then show ?thesis by (simp only: Cons split)
    qed
    have "words_of (xs @ t) = words_of (dropWhile is_ws (xs @ t))"
      by (simp only: words_of_dropWhile)
    also have "\<dots> = words_of (w @ (r @ t))" by (simp only: d append_assoc)
    also have "\<dots> = w # words_of (r @ t)" using w rt by (rule words_of_word)
    also have "words_of (r @ t) = words_of r" using "1.IH" len t by blast
    also have "w # words_of r = words_of (w @ r)" using w rr by (rule words_of_word [symmetric])
    also have "\<dots> = words_of (dropWhile is_ws xs)" by (simp only: Cons split)
    also have "\<dots> = words_of xs" by (rule words_of_dropWhile)
    finally show ?thesis .
  qed
qed

lemma words_of_trim: "words_of (trim s) = words_of s"
proof -
  let ?xs = "dropWhile is_ws s"
  have e: "?xs = trim s @ rev (takeWhile is_ws (rev ?xs))"
    unfolding trim_def by (metis rev_append rev_rev_ident takeWhile_dropWhile_id)
  have "\<forall>u\<in>set (rev (takeWhile is_ws (rev ?xs))). is_ws u" by (auto dest: set_takeWhileD)
  then have "words_of (trim s @ rev (takeWhile is_ws (rev ?xs))) = words_of (trim s)"
    by (rule words_of_trailing)
  with e have "words_of ?xs = words_of (trim s)" by simp
  then show ?thesis by (simp add: words_of_dropWhile)
qed

lemma subtitle_words_spec:
  "subtitle_words text = words_of (case text of None \<Rightarrow> [] | Some t \<Rightarrow> t)"
  using split_go_words [of "[]" False]
  by (simp add: subtitle_words_def split_ws_def words_of_trim)

text \<open>
  C10. \<open>formatSubtitle\<close> returns at most three lines. Each line is a non-empty group of
  whole words of the input (maximal runs of code units that are not white space) joined
  by single spaces; the groups, one after the other, are an initial part of the input's
  words in their order;
  a line of more than one word is no longer than the limit (44 by default), so that a
  line longer than the limit is a single word.
\<close>

theorem formatSubtitle_lines:
  "\<exists>groups rest.
     formatSubtitle text maxChars = map join_words groups \<and>
     length groups \<le> 3 \<and>
     words_of (case text of None \<Rightarrow> [] | Some t \<Rightarrow> t) = concat groups @ rest \<and>
     (\<forall>g\<in>set groups. g \<noteq> [] \<and>
        (\<forall>w\<in>set g. w \<noteq> [] \<and> (\<forall>c\<in>set w. \<not> is_ws c)) \<and>
        (1 < length g \<longrightarrow>
           length (join_words g) \<le> (case maxChars of None \<Rightarrow> 44 | Some n \<Rightarrow> n)) \<and>
        ((case maxChars of None \<Rightarrow> 44 | Some n \<Rightarrow> n) < length (join_words g) \<longrightarrow>
           (\<exists>w. g = [w])))"
proof -
  define m where "m = (case maxChars of None \<Rightarrow> 44 | Some n \<Rightarrow> n)"
  define t where "t = (case text of None \<Rightarrow> [] | Some t \<Rightarrow> t)"
  define ws where "ws = split_ws (trim t)"
  have fs: "formatSubtitle text maxChars =
      (case wrap_loop m ws ([], []) of
         (lines, current) \<Rightarrow> take 3 (if length current \<noteq> 0 then lines @ [current] else lines))"
    by (simp add: formatSubtitle_def m_def t_def ws_def Let_def)
  have sw: "subtitle_words text = filter (\<lambda>w. w \<noteq> []) ws"
    by (simp add: subtitle_words_def t_def ws_def)
  from split_trim_pieces [of t]
  consider (empty) "ws = [[]]" | (words) "\<forall>w\<in>set ws. w \<noteq> [] \<and> (\<forall>c\<in>set w. \<not> is_ws c)"
    unfolding ws_def by blast
  then show ?thesis
  proof cases
    case empty
    then have "formatSubtitle text maxChars = map join_words []"
      "words_of (case text of None \<Rightarrow> [] | Some t \<Rightarrow> t) = concat [] @ []"
      by (simp_all add: fs sw subtitle_words_spec [symmetric])
    then show ?thesis by (intro exI [of _ "[]"]) simp
  next
    case words
    then have ne: "\<forall>w\<in>set ws. w \<noteq> []" by blast
    obtain gs g where
      wl: "wrap_loop m ws (map join_words [], join_words []) = (map join_words gs, join_words g)"
      and gs: "\<forall>x\<in>set gs. group_ok m x" and g: "g = [] \<or> group_ok m g"
      and cc: "concat gs @ g = concat [] @ [] @ ws"
      using wrap_loop_groups [OF ne, of "[]" m "[]"] by auto
    define X where "X = gs @ (if g = [] then [] else [g])"
    have jg: "(length (join_words g) \<noteq> 0) = (g \<noteq> [])"
      using g by (auto simp add: group_ok_def join_words_nonempty)
    have lx: "(if length (join_words g) \<noteq> 0 then map join_words gs @ [join_words g]
               else map join_words gs) = map join_words X"
      using jg by (simp add: X_def)
    have f3: "formatSubtitle text maxChars = map join_words (take 3 X)"
      using wl by (simp only: fs join_words.simps list.map prod.case lx take_map)
    have cx: "concat X = ws" using cc by (auto simp add: X_def)
    have okX: "\<forall>x\<in>set X. group_ok m x" using gs g by (auto simp add: X_def)
    have sub: "set (concat X) = set ws" using cx by simp
    have w: "subtitle_words text = concat (take 3 X) @ concat (drop 3 X)"
      using ne cx sw by (metis (mono_tags, lifting) append_take_drop_id concat_append filter_True)
    have "\<forall>g\<in>set (take 3 X). g \<noteq> [] \<and>
        (\<forall>w\<in>set g. w \<noteq> [] \<and> (\<forall>c\<in>set w. \<not> is_ws c)) \<and>
        (1 < length g \<longrightarrow> length (join_words g) \<le> m) \<and>
        (m < length (join_words g) \<longrightarrow> (\<exists>w. g = [w]))"
    proof
      fix x assume "x \<in> set (take 3 X)"
      then have xX: "x \<in> set X" by (rule in_set_takeD)
      with okX have ok: "group_ok m x" by blast
      from xX have "set x \<subseteq> set ws" using sub by auto
      with words have a: "\<forall>w\<in>set x. w \<noteq> [] \<and> (\<forall>c\<in>set w. \<not> is_ws c)" by blast
      from ok have b: "x \<noteq> []" "1 < length x \<longrightarrow> length (join_words x) \<le> m"
        by (simp_all add: group_ok_def)
      have "m < length (join_words x) \<longrightarrow> (\<exists>w. x = [w])"
      proof
        assume "m < length (join_words x)"
        with b have "length x \<le> 1" by auto
        with b(1) show "\<exists>w. x = [w]" by (cases x) auto
      qed
      with a b show "x \<noteq> [] \<and>
        (\<forall>w\<in>set x. w \<noteq> [] \<and> (\<forall>c\<in>set w. \<not> is_ws c)) \<and>
        (1 < length x \<longrightarrow> length (join_words x) \<le> m) \<and>
        (m < length (join_words x) \<longrightarrow> (\<exists>w. x = [w]))" by blast
    qed
    with f3 w show ?thesis
      unfolding m_def subtitle_words_spec
      by (intro exI [of _ "take 3 X"] exI [of _ "concat (drop 3 X)"]) simp
  qed
qed


theorem formatSubtitle_lines_witness:
  "formatSubtitle (Some (ascii ''aa bb cc'')) (Some 5) = [ascii ''aa bb'', ascii ''cc''] \<and>
   (\<exists>groups rest.
      formatSubtitle (Some (ascii ''aa bb cc'')) (Some 5) = map join_words groups \<and>
      words_of (ascii ''aa bb cc'') = concat groups @ rest \<and>
      (\<exists>g. g \<in> set groups \<and> 1 < length g \<and> length (join_words g) \<le> 5))"
proof -
  have ev: "formatSubtitle (Some (ascii ''aa bb cc'')) (Some 5) = [ascii ''aa bb'', ascii ''cc'']"
    by (simp add: formatSubtitle_def ascii_def trim_def is_ws_def split_ws_def space_def)
  obtain groups rest where
    f: "formatSubtitle (Some (ascii ''aa bb cc'')) (Some 5) = map join_words groups"
    and s: "words_of (ascii ''aa bb cc'') = concat groups @ rest"
    and p: "\<forall>g\<in>set groups. g \<noteq> [] \<and>
        (\<forall>w\<in>set g. w \<noteq> [] \<and> (\<forall>c\<in>set w. \<not> is_ws c)) \<and>
        (1 < length g \<longrightarrow> length (join_words g) \<le> (case Some 5 of None \<Rightarrow> 44 | Some n \<Rightarrow> n)) \<and>
        ((case Some 5 of None \<Rightarrow> 44 | Some n \<Rightarrow> n) < length (join_words g) \<longrightarrow> (\<exists>w. g = [w]))"
    using formatSubtitle_lines [of "Some (ascii ''aa bb cc'')" "Some 5"] by auto
  from f ev obtain g1 gs where g: "groups = g1 # gs" and j: "join_words g1 = ascii ''aa bb''"
    by (cases groups) auto
  from g have m: "g1 \<in> set groups" by simp
  have sp: "space \<in> set (join_words g1)" "is_ws space"
    by (simp_all add: j ascii_def space_def is_ws_def)
  have "1 < length g1"
  proof (rule ccontr)
    assume "\<not> 1 < length g1"
    moreover from p m have "g1 \<noteq> []" by blast
    ultimately obtain w where w: "g1 = [w]" by (cases g1) auto
    with p m have "\<forall>c\<in>set w. \<not> is_ws c" by auto
    with sp w show False by auto
  qed
  moreover from this p m have "length (join_words g1) \<le> 5" by auto
  ultimately show ?thesis using ev f s m by blast
qed

section \<open>Properties of the dialogue turn\<close>

lemma turn_step_exit:
  "turn_step A env pc k = (None, k') \<Longrightarrow> currentPhase k' = Idle \<and> \<not> busy k'"
  by (cases pc)
    (auto simp add: Let_def finally_block_def catch_block_def split: if_splits option.splits)

lemma turn_step_busy: "turn_step A env pc k = (Some pc', k') \<Longrightarrow> busy k' = busy k"
  by (cases pc)
    (auto simp add: Let_def finally_block_def catch_block_def split: if_splits option.splits)

lemma run_turn_exit:
  "currentPhase (run_turn A env pc k) = Idle \<and> \<not> busy (run_turn A env pc k)"
proof (induction A env pc k rule: run_turn.induct)
  case (1 A env pc k)
  show ?case
  proof (cases "turn_step A env pc k")
    case (Pair r k')
    show ?thesis
    proof (cases r)
      case None
      with Pair turn_step_exit [of A env pc k k'] show ?thesis
        by (simp add: run_turn.simps [of A env pc k])
    next
      case (Some pc')
      with Pair "1.IH" show ?thesis by (simp add: run_turn.simps [of A env pc k])
    qed
  qed
qed

lemma turn_step_effects:
  "turn_step A env pc k = (r, k') \<Longrightarrow> \<exists>more. effects k' = effects k @ more"
  by (cases pc)
    (auto simp add: Let_def finally_block_def catch_block_def split: if_splits option.splits)

lemma run_turn_effects: "\<exists>more. effects (run_turn A env pc k) = effects k @ more"
proof (induction A env pc k rule: run_turn.induct)
  case (1 A env pc k)
  show ?case
  proof (cases "turn_step A env pc k")
    case (Pair r k')
    then obtain m1 where m1: "effects k' = effects k @ m1"
      using turn_step_effects by blast
    show ?thesis
    proof (cases r)
      case None
      with Pair m1 show ?thesis by (simp add: run_turn.simps [of A env pc k])
    next
      case (Some pc')
      with Pair "1.IH" m1 show ?thesis by (auto simp add: run_turn.simps [of A env pc k])
    qed
  qed
qed

text \<open>
  C3. Every return of a started \<open>loopOnce\<close> leaves \<open>currentPhase = idle\<close> and
  \<open>busy = false\<close>: whichever wait the call returns from (normal completion, the
  early return on quiet audio, a rejected capture, a rejected request, a throwing
  rendering or playback step), and so for the whole call under every outcome of its waits.
\<close>

theorem loopOnce_always_releases:
  "(turn_step A env pc k = (None, k') \<longrightarrow> currentPhase k' = Idle \<and> \<not> busy k') \<and>
   (\<not> busy k0 \<longrightarrow> currentPhase (loopOnce A env k0) = Idle \<and> \<not> busy (loopOnce A env k0))"
  using turn_step_exit [of A env pc k k'] run_turn_exit
  by (auto simp add: loopOnce_def loopOnce_begin_def Let_def)

theorem loopOnce_always_releases_witness:
  "currentPhase (loopOnce exact env_capture_fails kiosk_init) = Idle \<and>
   \<not> busy (loopOnce exact env_capture_fails kiosk_init) \<and>
   effects (loopOnce exact env_capture_fails kiosk_init) = [ShowToast DialogueError] \<and>
   currentPhase (finally_block (catch_block (kiosk_init\<lparr>busy := True\<rparr>))) = Idle \<and>
   \<not> busy (finally_block (catch_block (kiosk_init\<lparr>busy := True\<rparr>)))"
proof -
  have nb: "\<not> busy kiosk_init" by (simp add: kiosk_init_def)
  have st: "turn_step exact env_capture_fails (AwaitRecord True) (kiosk_init\<lparr>busy := True\<rparr>) =
      (None, finally_block (catch_block (kiosk_init\<lparr>busy := True\<rparr>)))"
    by simp
  have ef: "effects (loopOnce exact env_capture_fails kiosk_init) = [ShowToast DialogueError]"
    by (simp add: loopOnce_def loopOnce_begin_def run_turn.simps Let_def finally_block_def
        catch_block_def kiosk_init_def env_capture_fails_def)
  from nb st ef show ?thesis
    using loopOnce_always_releases [of exact env_capture_fails "AwaitRecord True"
        "kiosk_init\<lparr>busy := True\<rparr>" "finally_block (catch_block (kiosk_init\<lparr>busy := True\<rparr>))"
        kiosk_init]
    by blast
qed

lemma loopOnce_quiet:
  assumes "\<not> busy k" "\<not> isRecording k" "recorded env = Some audioBlob"
    and "\<not> checkAudioVolume A (decoded env)"
  shows "loopOnce A env k = k\<lparr>busy := False, currentPhase := Idle, isRecording := False\<rparr>"
proof -
  have "loopOnce A env k = k\<lparr>busy := True, currentPhase := Listening, isRecording := True,
      isRecording := False, busy := False, currentPhase := Idle, busy := False\<rparr>"
    using assms
    by (simp add: loopOnce_def loopOnce_begin_def run_turn.simps Let_def finally_block_def)
  then show ?thesis by simp
qed

lemma loopOnce_passes_gate:
  assumes "\<not> busy k" "\<not> isRecording k" "recorded env = Some audioBlob"
    and "checkAudioVolume A (decoded env)"
  shows "\<exists>more. effects (loopOnce A env k) = effects k @ NetworkSend audioBlob # more"
proof -
  let ?k2 = "k\<lparr>busy := True, currentPhase := Listening, isRecording := True, isRecording := False,
       currentPhase := Processing, effects := effects k @ [NetworkSend audioBlob]\<rparr>"
  have "loopOnce A env k = run_turn A env AwaitSend ?k2"
    using assms
    by (simp add: loopOnce_def loopOnce_begin_def run_turn.simps [of _ _ "AwaitRecord _"]
        run_turn.simps [of _ _ "AwaitVolume _"] Let_def)
  moreover obtain more where "effects (run_turn A env AwaitSend ?k2) = effects ?k2 @ more"
    using run_turn_effects by blast
  ultimately show ?thesis by simp
qed

lemma checkAudioVolume_formula:
  "checkAudioVolume A (Some (channelData # others)) \<longleftrightarrow>
     \<not> fl_lt A
         (fl_sqrt A
            (fl_div A (fold (\<lambda>x sum. fl_add A sum (fl_mul A x x)) channelData (fl_num A 0))
               (fl_num A (real (length channelData)))))
         (fl_num A (8 / 1000))"
  by (simp add: checkAudioVolume_def volumeRms_def QUIET_THRESHOLD_def)

lemma sqrt_quarter: "sqrt (1 / 4) = 1 / 2"
  by (rule real_sqrt_unique) (simp_all add: power2_eq_square)

lemma sqrt_1024: "sqrt (1 / 1048576) = 1 / 1024"
  by (rule real_sqrt_unique) (simp_all add: power2_eq_square)

text \<open>
  C2, as stated, fails. A decoded unit of two channels, the first silent and the second
  with the samples 1 and 0, has an RMS over all its samples of 1/2, far above 0.008; the
  gate reads channel 0 only, finds 0, and the turn ends without a send.
\<close>

theorem amplitude_gate_counterexample:
  "decoded env_second_channel = Some [[0, 0], [1, 0]] \<and>
   \<not> sqrt ((\<Sum>x\<leftarrow>concat [[0, 0], [1, 0 :: real]]. x * x) /
           real (length (concat [[0, 0], [1, 0 :: real]]))) < 8 / 1000 \<and>
   \<not> checkAudioVolume exact (decoded env_second_channel) \<and>
   effects (loopOnce exact env_second_channel kiosk_init) = []"
proof -
  have d: "decoded env_second_channel = Some [[0, 0], [1, 0]]"
    "recorded env_second_channel = Some [26, 69]"
    by (simp_all add: env_second_channel_def)
  have r: "\<not> sqrt ((\<Sum>x\<leftarrow>concat [[0, 0], [1, 0 :: real]]. x * x) /
           real (length (concat [[0, 0], [1, 0 :: real]]))) < 8 / 1000"
    by (simp add: sqrt_quarter)
  have c: "\<not> checkAudioVolume exact (decoded env_second_channel)"
    by (simp add: d checkAudioVolume_formula exact_def)
  have k: "\<not> busy kiosk_init" "\<not> isRecording kiosk_init" "effects kiosk_init = []"
    by (simp_all add: kiosk_init_def)
  have "loopOnce exact env_second_channel kiosk_init =
      kiosk_init\<lparr>busy := False, currentPhase := Idle, isRecording := False\<rparr>"
    using k d c by (intro loopOnce_quiet) simp_all
  with k have "effects (loopOnce exact env_second_channel kiosk_init) = []" by simp
  with d r c show ?thesis by blast
qed

text \<open>
  C2, amended. The amplitude gate of buffered mode computes the RMS as the square root
  of the mean of the squared samples over all samples of channel 0 of the decoded unit
  (it reads no other channel). If that RMS is below 0.008, \<open>loopOnce\<close> adds no effect
  at all (no send, no toast) and ends idle with \<open>busy\<close> released; if it is not, the unit
  is sent. If decoding fails the gate lets the unit through: the turn goes on to
  processing and the unit is sent.
\<close>

theorem amplitude_gate:
  "(let rms = fl_sqrt A
                (fl_div A
                   (fold (\<lambda>x sum. fl_add A sum (fl_mul A x x)) channelData (fl_num A 0))
                   (fl_num A (real (length channelData))))
    in (checkAudioVolume A (Some (channelData # others)) \<longleftrightarrow>
          \<not> fl_lt A rms (fl_num A (8 / 1000))) \<and>
       (\<not> busy k \<and> \<not> isRecording k \<and> recorded env = Some audioBlob \<and>
        decoded env = Some (channelData # others) \<and> fl_lt A rms (fl_num A (8 / 1000)) \<longrightarrow>
          effects (loopOnce A env k) = effects k \<and> currentPhase (loopOnce A env k) = Idle \<and>
          \<not> busy (loopOnce A env k)) \<and>
       (\<not> busy k \<and> \<not> isRecording k \<and> recorded env = Some audioBlob \<and>
        decoded env = Some (channelData # others) \<and> \<not> fl_lt A rms (fl_num A (8 / 1000)) \<longrightarrow>
          (\<exists>more. effects (loopOnce A env k) = effects k @ NetworkSend audioBlob # more))) \<and>
   checkAudioVolume A None \<and>
   (\<not> busy k \<and> \<not> isRecording k \<and> recorded env = Some audioBlob \<and> decoded env = None \<longrightarrow>
      turn_step A env (AwaitVolume audioBlob) k1 =
        (Some AwaitSend,
         k1\<lparr>currentPhase := Processing, effects := effects k1 @ [NetworkSend audioBlob]\<rparr>) \<and>
      (\<exists>more. effects (loopOnce A env k) = effects k @ NetworkSend audioBlob # more))"
proof -
  define rms where "rms = fl_sqrt A
                (fl_div A
                   (fold (\<lambda>x sum. fl_add A sum (fl_mul A x x)) channelData (fl_num A 0))
                   (fl_num A (real (length channelData))))"
  have a: "checkAudioVolume A (Some (channelData # others)) \<longleftrightarrow>
      \<not> fl_lt A rms (fl_num A (8 / 1000))"
    unfolding rms_def by (rule checkAudioVolume_formula)
  have b: "\<not> busy k \<and> \<not> isRecording k \<and> recorded env = Some audioBlob \<and>
        decoded env = Some (channelData # others) \<and> fl_lt A rms (fl_num A (8 / 1000)) \<longrightarrow>
          effects (loopOnce A env k) = effects k \<and> currentPhase (loopOnce A env k) = Idle \<and>
          \<not> busy (loopOnce A env k)"
  proof
    assume h: "\<not> busy k \<and> \<not> isRecording k \<and> recorded env = Some audioBlob \<and>
        decoded env = Some (channelData # others) \<and> fl_lt A rms (fl_num A (8 / 1000))"
    with a have "\<not> checkAudioVolume A (decoded env)" by simp
    with h have "loopOnce A env k = k\<lparr>busy := False, currentPhase := Idle, isRecording := False\<rparr>"
      by (intro loopOnce_quiet) simp_all
    then show "effects (loopOnce A env k) = effects k \<and> currentPhase (loopOnce A env k) = Idle \<and>
      \<not> busy (loopOnce A env k)" by simp
  qed
  have c: "\<not> busy k \<and> \<not> isRecording k \<and> recorded env = Some audioBlob \<and>
        decoded env = Some (channelData # others) \<and> \<not> fl_lt A rms (fl_num A (8 / 1000)) \<longrightarrow>
          (\<exists>more. effects (loopOnce A env k) = effects k @ NetworkSend audioBlob # more)"
  proof
    assume h: "\<not> busy k \<and> \<not> isRecording k \<and> recorded env = Some audioBlob \<and>
        decoded env = Some (channelData # others) \<and> \<not> fl_lt A rms (fl_num A (8 / 1000))"
    with a have "checkAudioVolume A (decoded env)" by simp
    with h show "\<exists>more. effects (loopOnce A env k) = effects k @ NetworkSend audioBlob # more"
      by (intro loopOnce_passes_gate) simp_all
  qed
  have d: "checkAudioVolume A None" by (simp add: checkAudioVolume_def)
  have e: "\<not> busy k \<and> \<not> isRecording k \<and> recorded env = Some audioBlob \<and> decoded env = None \<longrightarrow>
      turn_step A env (AwaitVolume audioBlob) k1 =
        (Some AwaitSend,
         k1\<lparr>currentPhase := Processing, effects := effects k1 @ [NetworkSend audioBlob]\<rparr>) \<and>
      (\<exists>more. effects (loopOnce A env k) = effects k @ NetworkSend audioBlob # more)"
    using loopOnce_passes_gate [of k env audioBlob A] by (simp add: checkAudioVolume_def)
  from a b c d e show ?thesis unfolding Let_def rms_def by blast
qed

theorem amplitude_gate_witness:
  "effects (loopOnce exact env_quiet kiosk_init) = [] \<and>
   currentPhase (loopOnce exact env_quiet kiosk_init) = Idle \<and>
   \<not> busy (loopOnce exact env_quiet kiosk_init) \<and>
   (\<exists>more. effects (loopOnce exact env_undecodable kiosk_init) = NetworkSend [26, 69] # more)"
proof -
  have k: "\<not> busy kiosk_init" "\<not> isRecording kiosk_init" "effects kiosk_init = []"
    by (simp_all add: kiosk_init_def)
  have q: "recorded env_quiet = Some [26, 69]"
    "decoded env_quiet = Some ([1 / 1024, - 1 / 1024] # [])"
    by (simp_all add: env_quiet_def)
  have lt: "fl_lt exact
      (fl_sqrt exact
         (fl_div exact
            (fold (\<lambda>x sum. fl_add exact sum (fl_mul exact x x)) [1 / 1024, - 1 / 1024]
               (fl_num exact 0))
            (fl_num exact (real (length [1 / 1024, - 1 / 1024 :: real])))))
      (fl_num exact (8 / 1000))"
    by (simp add: exact_def sqrt_1024)
  have u: "recorded env_undecodable = Some [26, 69]" "decoded env_undecodable = None"
    by (simp_all add: env_undecodable_def)
  from k q lt have "effects (loopOnce exact env_quiet kiosk_init) = effects kiosk_init \<and>
      currentPhase (loopOnce exact env_quiet kiosk_init) = Idle \<and>
      \<not> busy (loopOnce exact env_quiet kiosk_init)"
    using amplitude_gate [of exact "[1 / 1024, - 1 / 1024]" "[]" kiosk_init env_quiet "[26, 69]",
        unfolded Let_def]
    by blast
  moreover from k u have "\<exists>more. effects (loopOnce exact env_undecodable kiosk_init) =
      effects kiosk_init @ NetworkSend [26, 69] # more"
    using amplitude_gate [of exact "[]" "[]" kiosk_init env_undecodable "[26, 69]",
        unfolded Let_def]
    by blast
  ultimately show ?thesis using k by simp
qed

section \<open>Properties of presence detection\<close>

text \<open>The handler's test is the written-out one.\<close>

lemma tier_of_cases:
  "(tier_of A pcfg n = Near \<longleftrightarrow> fl_ge A n (nearTh A pcfg)) \<and>
   (tier_of A pcfg n = Medium \<longleftrightarrow> \<not> fl_ge A n (nearTh A pcfg) \<and> fl_ge A n (medTh A pcfg)) \<and>
   (tier_of A pcfg n = Far \<longleftrightarrow> \<not> fl_ge A n (nearTh A pcfg) \<and> \<not> fl_ge A n (medTh A pcfg))"
  by (simp add: tier_of_def)

lemma qualifies_handler:
  "qualifies A pcfg res =
     (case multiFaceLandmarks res of
        [] \<Rightarrow> False
      | landmarks # others \<Rightarrow>
          263 < length landmarks \<and>
          (tier_of A pcfg (eyeDistanceNorm A res landmarks) = Near \<or>
           tier_of A pcfg (eyeDistanceNorm A res landmarks) = Medium) \<and>
          attention_of A pcfg res landmarks \<and> inRoi A pcfg landmarks)"
  by (auto simp add: qualifies_def tier_of_def eyeDistanceNorm_def attention_of_def
      horizOffset_def vertOffset_def inRoi_def nearTh_def medTh_def tol_def Let_def
      split: list.splits)

lemma onResults_face:
  "multiFaceLandmarks res = landmarks # others \<Longrightarrow> 263 < length landmarks \<Longrightarrow>
   lastTier (onResults A pcfg res k) = tier_of A pcfg (eyeDistanceNorm A res landmarks) \<and>
   attention (onResults A pcfg res k) = attention_of A pcfg res landmarks"
  by (simp add: onResults_def Let_def clearTimeout_def setPresenceTimeout_def
      split: option.splits)

lemma onResults_qualifies:
  "qualifies A pcfg res \<Longrightarrow>
   presenceDetected (onResults A pcfg res k) \<and>
   presenceTimer (onResults A pcfg res k) = Some (nextTimerId k) \<and>
   nextTimerId (onResults A pcfg res k) = nextTimerId k + 1 \<and>
   now (onResults A pcfg res k) = now k \<and>
   onResultsInstalled (onResults A pcfg res k) = onResultsInstalled k \<and>
   timeouts (onResults A pcfg res k) =
     (case presenceTimer k of
        None \<Rightarrow> timeouts k
      | Some h \<Rightarrow> if h \<noteq> 0 then filter (\<lambda>(i, due). i \<noteq> h) (timeouts k) else timeouts k)
     @ [(nextTimerId k, now k + timer_delay (hold_ms pcfg))]"
  unfolding qualifies_handler
  by (auto simp add: onResults_def Let_def clearTimeout_def setPresenceTimeout_def
      split: list.splits option.splits)

lemma onResults_not_qualifies:
  "\<not> qualifies A pcfg res \<Longrightarrow>
   presenceDetected (onResults A pcfg res k) = presenceDetected k \<and>
   presenceTimer (onResults A pcfg res k) = presenceTimer k \<and>
   nextTimerId (onResults A pcfg res k) = nextTimerId k \<and>
   now (onResults A pcfg res k) = now k \<and>
   onResultsInstalled (onResults A pcfg res k) = onResultsInstalled k \<and>
   timeouts (onResults A pcfg res k) = timeouts k"
  unfolding qualifies_handler
  by (auto simp add: onResults_def Let_def split: list.splits)

text \<open>The example frames, in the arithmetic without rounding.\<close>

lemma timer_delay_small: "0 \<le> ms \<Longrightarrow> ms < 2147483648 \<Longrightarrow> timer_delay ms = nat ms"
proof -
  assume a: "0 \<le> ms" "ms < 2147483648"
  have "sint (word_of_int ms :: 32 word) = signed_take_bit 31 ms"
    by (simp add: sint_sbintrunc')
  also have "\<dots> = ms"
    using a by (intro signed_take_bit_int_eq_self) simp_all
  finally show ?thesis using a by (simp add: timer_delay_def)
qed

lemma timer_delay_wraps: "timer_delay 2147483648 = 0"
  by (simp add: timer_delay_def)

lemma sqrt_6400: "sqrt 6400 = 80"
  by (rule real_sqrt_unique) simp_all

lemma sqrt_100: "sqrt 100 = 10"
  by (rule real_sqrt_unique) simp_all

lemma face_near_qualifies:
  "cfg_roi pcfg = None \<Longrightarrow> attentionTolerancePx pcfg = None \<Longrightarrow> nearThreshold pcfg = None \<Longrightarrow>
   mediumThreshold pcfg = None \<Longrightarrow> qualifies exact pcfg face_near"
  by (simp add: qualifies_def face_near_def exact_def Let_def sqrt_6400)

lemma face_near_strip: "qualifies exact cfg_strip face_near"
  by (simp add: qualifies_def face_near_def exact_def Let_def sqrt_6400 cfg_strip_def)

lemma face_far_not_qualifies: "\<not> qualifies exact default_cfg face_far"
  by (simp add: qualifies_def face_far_def exact_def Let_def sqrt_100 default_cfg_def)

lemma turn_step_presence:
  "turn_step A env pc k = (r, k') \<Longrightarrow>
   presenceDetected k' = presenceDetected k \<and> presenceTimer k' = presenceTimer k \<and>
   timeouts k' = timeouts k \<and> now k' = now k \<and> nextTimerId k' = nextTimerId k \<and>
   onResultsInstalled k' = onResultsInstalled k \<and> mainLoopStarted k' = mainLoopStarted k"
  by (cases pc)
    (auto simp add: Let_def finally_block_def catch_block_def split: if_splits option.splits)

lemma call_loopOnce_presence:
  "presenceDetected (glob (call_loopOnce env g s)) = presenceDetected (glob s) \<and>
   presenceTimer (glob (call_loopOnce env g s)) = presenceTimer (glob s) \<and>
   timeouts (glob (call_loopOnce env g s)) = timeouts (glob s) \<and>
   now (glob (call_loopOnce env g s)) = now (glob s) \<and>
   nextTimerId (glob (call_loopOnce env g s)) = nextTimerId (glob s) \<and>
   onResultsInstalled (glob (call_loopOnce env g s)) = onResultsInstalled (glob s) \<and>
   mainLoopStarted (glob (call_loopOnce env g s)) = mainLoopStarted (glob s)"
  by (simp add: call_loopOnce_def loopOnce_begin_def Let_def greet_done_def)

lemma resume_presence:
  "presenceDetected (glob (resume A i s)) = presenceDetected (glob s) \<and>
   presenceTimer (glob (resume A i s)) = presenceTimer (glob s) \<and>
   timeouts (glob (resume A i s)) = timeouts (glob s) \<and>
   now (glob (resume A i s)) = now (glob s) \<and>
   nextTimerId (glob (resume A i s)) = nextTimerId (glob s) \<and>
   onResultsInstalled (glob (resume A i s)) = onResultsInstalled (glob s) \<and>
   mainLoopStarted (glob (resume A i s)) = mainLoopStarted (glob s)"
proof (cases "i < length (turns s)")
  case False
  then show ?thesis by (simp add: resume_def)
next
  case True
  obtain pc env g where t: "turns s ! i = (pc, env, g)" by (cases "turns s ! i") auto
  obtain r k' where st: "turn_step A env pc (glob s) = (r, k')" by (cases "turn_step A env pc (glob s)") auto
  from turn_step_presence [OF st] True t st show ?thesis
    by (cases r) (simp_all add: resume_def greet_done_def)
qed

lemma onResults_restart:
  "qualifies A pcfg res \<Longrightarrow> presence_wf k \<Longrightarrow>
   timeouts (onResults A pcfg res k) = [(nextTimerId k, now k + timer_delay (hold_ms pcfg))]"
proof -
  assume True: "qualifies A pcfg res" and w: "presence_wf k"
  note q = onResults_qualifies [OF True, of k]
  show ?thesis
  proof (cases "timeouts k")
    case Nil
    with q show ?thesis by (simp split: option.splits)
  next
    case (Cons a as)
    then obtain h where h: "presenceTimer k = Some h" "h \<noteq> 0"
      using w by (cases a) (auto simp add: presence_wf_def)
    from w h have "\<forall>(i, due)\<in>set (timeouts k). i = h" by (auto simp add: presence_wf_def)
    then have "filter (\<lambda>(i, due). i \<noteq> h) (timeouts k) = []"
      by (auto simp add: filter_empty_conv)
    with q h show ?thesis by simp
  qed
qed

lemma onResults_wf: "presence_wf k \<Longrightarrow> presence_wf (onResults A pcfg res k)"
proof (cases "qualifies A pcfg res")
  case False
  assume "presence_wf k"
  with onResults_not_qualifies [OF False, of k] show ?thesis by (simp add: presence_wf_def)
next
  case True
  assume w: "presence_wf k"
  with onResults_qualifies [OF True, of k] onResults_restart [OF True w] show ?thesis
    by (simp add: presence_wf_def)
qed

lemma holdTimeout_wf: "presence_wf k \<Longrightarrow> presence_wf (holdTimeout h k)"
  by (auto simp add: presence_wf_def holdTimeout_def clearTimeout_def)

lemma step_wf: "presence_wf (glob s) \<Longrightarrow> presence_wf (glob (step A pcfg ev s))"
proof (cases ev)
  case (MainLoopTick env)
  assume "presence_wf (glob s)"
  with MainLoopTick show ?thesis by (simp add: presence_wf_def call_loopOnce_presence)
next
  case (RetryClick env)
  assume "presence_wf (glob s)"
  with RetryClick show ?thesis by (simp add: presence_wf_def call_loopOnce_presence)
next
  case (Resume i)
  assume "presence_wf (glob s)"
  with Resume show ?thesis by (simp add: presence_wf_def resume_presence)
next
  case SafetyTimeout
  assume "presence_wf (glob s)"
  with SafetyTimeout show ?thesis by (simp add: presence_wf_def)
next
  case GreetTimeout
  assume "presence_wf (glob s)"
  with GreetTimeout show ?thesis by (simp add: presence_wf_def)
next
  case (FaceResults res)
  assume "presence_wf (glob s)"
  with FaceResults show ?thesis by (simp add: onResults_wf)
next
  case (Elapse d)
  assume "presence_wf (glob s)"
  with Elapse show ?thesis by (simp add: presence_wf_def)
next
  case (HoldTimeout h)
  assume "presence_wf (glob s)"
  with HoldTimeout show ?thesis by (simp add: holdTimeout_wf)
qed

lemma run_wf: "presence_wf (glob s) \<Longrightarrow> presence_wf (glob (run A pcfg evs s))"
  unfolding run_def by (induction evs arbitrary: s) (simp_all add: step_wf)

lemma boot_wf: "presence_wf (glob (boot camera_ok))"
  by (simp add: presence_wf_def boot_def startPresenceDetection_def mainLoop_def kiosk_init_def)

lemma step_installed:
  "onResultsInstalled (glob (step A pcfg ev s)) = onResultsInstalled (glob s)"
proof (cases ev)
  case (FaceResults res)
  then show ?thesis
    using onResults_qualifies [of A pcfg res "glob s"] onResults_not_qualifies [of A pcfg res "glob s"]
    by (cases "qualifies A pcfg res") simp_all
qed (simp_all add: call_loopOnce_presence resume_presence holdTimeout_def clearTimeout_def)

lemma run_installed:
  "onResultsInstalled (glob (run A pcfg evs s)) = onResultsInstalled (glob s)"
  unfolding run_def by (induction evs arbitrary: s) (simp_all add: step_installed)

lemma step_presence_off:
  "presenceDetected (glob s) \<Longrightarrow> \<not> presenceDetected (glob (step A pcfg ev s)) \<Longrightarrow>
   \<exists>h due. ev = HoldTimeout h \<and> (h, due) \<in> set (timeouts (glob s)) \<and> due \<le> now (glob s)"
proof (cases ev)
  case (FaceResults res)
  assume "presenceDetected (glob s)" "\<not> presenceDetected (glob (step A pcfg ev s))"
  with FaceResults show ?thesis
    using onResults_qualifies [of A pcfg res "glob s"] onResults_not_qualifies [of A pcfg res "glob s"]
    by (cases "qualifies A pcfg res") (simp_all split: if_splits)
next
  case (HoldTimeout h)
  assume "presenceDetected (glob s)" "\<not> presenceDetected (glob (step A pcfg ev s))"
  with HoldTimeout show ?thesis
    by (auto simp add: holdTimeout_def list_ex_iff split: if_splits)
qed (simp_all add: call_loopOnce_presence resume_presence split: if_splits)

lemma step_keeps_presence:
  assumes "presenceDetected (glob s)"
    and "\<forall>(i, due)\<in>set (timeouts (glob s)). T \<le> due"
    and "T \<le> now (glob s) + timer_delay (hold_ms pcfg)"
    and "now (glob s) + elapsed [ev] < T"
  shows "presenceDetected (glob (step A pcfg ev s)) \<and>
    (\<forall>(i, due)\<in>set (timeouts (glob (step A pcfg ev s))). T \<le> due) \<and>
    T \<le> now (glob (step A pcfg ev s)) + timer_delay (hold_ms pcfg) \<and>
    now (glob (step A pcfg ev s)) = now (glob s) + elapsed [ev]"
proof (cases ev)
  case (FaceResults res)
  show ?thesis
  proof (cases "onResultsInstalled (glob s) \<and> qualifies A pcfg res")
    case True
    with FaceResults assms onResults_qualifies [of A pcfg res "glob s"] show ?thesis
      by (auto split: option.splits if_splits)
  next
    case False
    with FaceResults assms onResults_not_qualifies [of A pcfg res "glob s"] show ?thesis
      by auto
  qed
next
  case (HoldTimeout h)
  from assms have "\<not> list_ex (\<lambda>(i, due). i = h \<and> due \<le> now (glob s)) (timeouts (glob s))"
    by (auto simp add: list_ex_iff)
  with HoldTimeout assms show ?thesis by (simp add: holdTimeout_def)
next
  case (Elapse d)
  with assms show ?thesis by auto
qed (use assms in \<open>simp_all add: call_loopOnce_presence resume_presence\<close>)

lemma elapsed_Cons: "elapsed (ev # evs) = elapsed [ev] + elapsed evs"
  by (cases ev) simp_all

lemma run_keeps_presence:
  "presenceDetected (glob s) \<Longrightarrow> \<forall>(i, due)\<in>set (timeouts (glob s)). T \<le> due \<Longrightarrow>
   T \<le> now (glob s) + timer_delay (hold_ms pcfg) \<Longrightarrow> now (glob s) + elapsed evs < T \<Longrightarrow>
   presenceDetected (glob (run A pcfg evs s))"
proof (induction evs arbitrary: s)
  case Nil
  then show ?case by (simp add: run_def)
next
  case (Cons ev evs)
  from Cons.prems(4) have e: "now (glob s) + elapsed [ev] < T"
    and r: "now (glob s) + elapsed [ev] + elapsed evs < T"
    using elapsed_Cons [of ev evs] by simp_all
  note st = step_keeps_presence [where A = A, OF Cons.prems(1) Cons.prems(2) Cons.prems(3) e]
  from st r have "presenceDetected (glob (run A pcfg evs (step A pcfg ev s)))"
    by (intro Cons.IH) simp_all
  then show ?case by (simp add: run_def)
qed

lemma run_append: "run A pcfg (evs1 @ evs2) s = run A pcfg evs2 (run A pcfg evs1 s)"
  by (simp add: run_def)

lemma presence_held:
  assumes q: "qualifies A pcfg res" and e: "elapsed evs2 < timer_delay (hold_ms pcfg)"
  shows "presenceDetected (glob (run A pcfg (evs1 @ FaceResults res # evs2) (boot True)))"
proof -
  let ?s1 = "run A pcfg evs1 (boot True)"
  let ?s2 = "step A pcfg (FaceResults res) ?s1"
  have w: "presence_wf (glob ?s1)" by (rule run_wf [OF boot_wf])
  have i: "onResultsInstalled (glob ?s1)"
    by (simp add: run_installed boot_def startPresenceDetection_def)
  have a: "presenceDetected (glob ?s2)" "now (glob ?s2) = now (glob ?s1)"
    using onResults_qualifies [OF q, of "glob ?s1"] i by simp_all
  have t: "timeouts (glob ?s2) = [(nextTimerId (glob ?s1), now (glob ?s1) + timer_delay (hold_ms pcfg))]"
    using onResults_restart [OF q w] i by simp
  have "presenceDetected (glob (run A pcfg evs2 ?s2))"
    by (rule run_keeps_presence [where T = "now (glob ?s1) + timer_delay (hold_ms pcfg)"])
      (use a t e in simp_all)
  then show ?thesis by (simp add: run_append run_def)
qed


text \<open>
  C6, as stated, fails. With the region of interest the strip between 7/16 and 9/16 of
  the width, the example face has its nose at 1/2, inside the strip, and its eyes at 3/8
  and 5/8, both outside it: the face does not lie inside the region, and the handler
  takes the frame as a person present.
\<close>

theorem presence_tiers_and_qualification_counterexample:
  "cfg_roi cfg_strip =
     Some \<lparr>roi_top = 0, roi_left = 7 / 16, roi_width = 1 / 8, roi_height = 1\<rparr> \<and>
   pt_x (hd (multiFaceLandmarks face_near) ! 33) = 3 / 8 \<and>
   pt_x (hd (multiFaceLandmarks face_near) ! 263) = 5 / 8 \<and>
   pt_x (hd (multiFaceLandmarks face_near) ! 1) = 1 / 2 \<and>
   pt_x (hd (multiFaceLandmarks face_near) ! 33) < 7 / 16 \<and>
   7 / 16 + 1 / 8 < pt_x (hd (multiFaceLandmarks face_near) ! 263) \<and>
   presenceDetected (onResults exact cfg_strip face_near kiosk_init) \<and>
   presenceTimer (onResults exact cfg_strip face_near kiosk_init) = Some 1"
  using onResults_qualifies [OF face_near_strip, of kiosk_init]
  by (simp add: cfg_strip_def face_near_def kiosk_init_def)

text \<open>
  C6, amended. For every frame with a detected face, the distance tier is near iff the
  normalised inter-eye distance is at least the near threshold (0.10 unless configured),
  medium iff it is not, and is at least the medium threshold (0.07 unless configured),
  and far otherwise; where the distance and the near threshold compare as numbers do,
  ``is not at least'' is ``is below''. The frame qualifies as present (the handler sets
  presence and a hold timeout) iff the tier is near or medium, and the pixel offsets of
  the nose from the middle of the eyes, horizontal and vertical, are both below the
  tolerance (80 unless configured), and the nose landmark lies inside the configured
  region of interest, bounds included (the whole frame unless configured).
\<close>

theorem presence_tiers_and_qualification:
  "multiFaceLandmarks res = landmarks # others \<and> 263 < length landmarks \<longrightarrow>
     (let leftEye = landmarks ! 33; rightEye = landmarks ! 263; nose = landmarks ! 1;
          w = fl_num A (real (videoWidth res)); h = fl_num A (real (videoHeight res));
          dx = fl_mul A (fl_sub A (pt_x rightEye) (pt_x leftEye)) w;
          dy = fl_mul A (fl_sub A (pt_y rightEye) (pt_y leftEye)) h;
          eyeNorm = fl_div A (fl_sqrt A (fl_add A (fl_mul A dx dx) (fl_mul A dy dy))) w;
          horiz = fl_mul A (fl_abs A (fl_sub A
                    (fl_div A (fl_add A (pt_x leftEye) (pt_x rightEye)) (fl_num A 2))
                    (pt_x nose))) w;
          vert = fl_mul A (fl_abs A (fl_sub A
                   (fl_div A (fl_add A (pt_y leftEye) (pt_y rightEye)) (fl_num A 2))
                   (pt_y nose))) h;
          nearT = (case nearThreshold pcfg of None \<Rightarrow> fl_num A (10 / 100) | Some v \<Rightarrow> v);
          medT = (case mediumThreshold pcfg of None \<Rightarrow> fl_num A (7 / 100) | Some v \<Rightarrow> v);
          tolerance = (case attentionTolerancePx pcfg of None \<Rightarrow> fl_num A 80 | Some v \<Rightarrow> v);
          r = (case cfg_roi pcfg of
                 None \<Rightarrow> \<lparr>roi_top = fl_num A 0, roi_left = fl_num A 0,
                           roi_width = fl_num A 1, roi_height = fl_num A 1\<rparr>
               | Some r \<Rightarrow> r);
          noseInRoi = (fl_ge A (pt_x nose) (roi_left r) \<and>
                       fl_le A (pt_x nose) (fl_add A (roi_left r) (roi_width r)) \<and>
                       fl_ge A (pt_y nose) (roi_top r) \<and>
                       fl_le A (pt_y nose) (fl_add A (roi_top r) (roi_height r)));
          k' = onResults A pcfg res k
      in (lastTier k' = Near \<longleftrightarrow> fl_ge A eyeNorm nearT) \<and>
         (lastTier k' = Medium \<longleftrightarrow> \<not> fl_ge A eyeNorm nearT \<and> fl_ge A eyeNorm medT) \<and>
         (lastTier k' = Far \<longleftrightarrow> \<not> fl_ge A eyeNorm nearT \<and> \<not> fl_ge A eyeNorm medT) \<and>
         ((fl_lt A eyeNorm nearT \<longleftrightarrow> \<not> fl_ge A eyeNorm nearT) \<longrightarrow>
            (lastTier k' = Medium \<longleftrightarrow> fl_lt A eyeNorm nearT \<and> fl_ge A eyeNorm medT)) \<and>
         (attention k' \<longleftrightarrow> fl_lt A horiz tolerance \<and> fl_lt A vert tolerance) \<and>
         (nextTimerId k' \<noteq> nextTimerId k \<longleftrightarrow>
            (lastTier k' = Near \<or> lastTier k' = Medium) \<and> attention k' \<and> noseInRoi) \<and>
         (nextTimerId k' \<noteq> nextTimerId k \<longrightarrow>
            presenceDetected k' \<and> presenceTimer k' = Some (nextTimerId k)) \<and>
         (nextTimerId k' = nextTimerId k \<longrightarrow>
            presenceDetected k' = presenceDetected k \<and> presenceTimer k' = presenceTimer k))"
proof
  assume h: "multiFaceLandmarks res = landmarks # others \<and> 263 < length landmarks"
  then have f: "lastTier (onResults A pcfg res k) = tier_of A pcfg (eyeDistanceNorm A res landmarks)"
    "attention (onResults A pcfg res k) = attention_of A pcfg res landmarks"
    using onResults_face [of res landmarks others A pcfg k] by simp_all
  have q: "qualifies A pcfg res \<longleftrightarrow>
      (tier_of A pcfg (eyeDistanceNorm A res landmarks) = Near \<or>
       tier_of A pcfg (eyeDistanceNorm A res landmarks) = Medium) \<and>
      attention_of A pcfg res landmarks \<and> inRoi A pcfg landmarks"
    using h by (simp add: qualifies_handler)
  have t: "nextTimerId (onResults A pcfg res k) \<noteq> nextTimerId k \<longleftrightarrow> qualifies A pcfg res"
    using onResults_qualifies [of A pcfg res k] onResults_not_qualifies [of A pcfg res k]
    by (cases "qualifies A pcfg res") simp_all
  have p: "qualifies A pcfg res \<longrightarrow>
      presenceDetected (onResults A pcfg res k) \<and>
      presenceTimer (onResults A pcfg res k) = Some (nextTimerId k)"
    using onResults_qualifies [of A pcfg res k] by blast
  have n: "\<not> qualifies A pcfg res \<longrightarrow>
      presenceDetected (onResults A pcfg res k) = presenceDetected k \<and>
      presenceTimer (onResults A pcfg res k) = presenceTimer k"
    using onResults_not_qualifies [of A pcfg res k] by blast
  have t': "nextTimerId (onResults A pcfg res k) = nextTimerId k \<longleftrightarrow> \<not> qualifies A pcfg res"
    using t by blast
  show "(let leftEye = landmarks ! 33; rightEye = landmarks ! 263; nose = landmarks ! 1;
          w = fl_num A (real (videoWidth res)); h = fl_num A (real (videoHeight res));
          dx = fl_mul A (fl_sub A (pt_x rightEye) (pt_x leftEye)) w;
          dy = fl_mul A (fl_sub A (pt_y rightEye) (pt_y leftEye)) h;
          eyeNorm = fl_div A (fl_sqrt A (fl_add A (fl_mul A dx dx) (fl_mul A dy dy))) w;
          horiz = fl_mul A (fl_abs A (fl_sub A
                    (fl_div A (fl_add A (pt_x leftEye) (pt_x rightEye)) (fl_num A 2))
                    (pt_x nose))) w;
          vert = fl_mul A (fl_abs A (fl_sub A
                   (fl_div A (fl_add A (pt_y leftEye) (pt_y rightEye)) (fl_num A 2))
                   (pt_y nose))) h;
          nearT = (case nearThreshold pcfg of None \<Rightarrow> fl_num A (10 / 100) | Some v \<Rightarrow> v);
          medT = (case mediumThreshold pcfg of None \<Rightarrow> fl_num A (7 / 100) | Some v \<Rightarrow> v);
          tolerance = (case attentionTolerancePx pcfg of None \<Rightarrow> fl_num A 80 | Some v \<Rightarrow> v);
          r = (case cfg_roi pcfg of
                 None \<Rightarrow> \<lparr>roi_top = fl_num A 0, roi_left = fl_num A 0,
                           roi_width = fl_num A 1, roi_height = fl_num A 1\<rparr>
               | Some r \<Rightarrow> r);
          noseInRoi = (fl_ge A (pt_x nose) (roi_left r) \<and>
                       fl_le A (pt_x nose) (fl_add A (roi_left r) (roi_width r)) \<and>
                       fl_ge A (pt_y nose) (roi_top r) \<and>
                       fl_le A (pt_y nose) (fl_add A (roi_top r) (roi_height r)));
          k' = onResults A pcfg res k
      in (lastTier k' = Near \<longleftrightarrow> fl_ge A eyeNorm nearT) \<and>
         (lastTier k' = Medium \<longleftrightarrow> \<not> fl_ge A eyeNorm nearT \<and> fl_ge A eyeNorm medT) \<and>
         (lastTier k' = Far \<longleftrightarrow> \<not> fl_ge A eyeNorm nearT \<and> \<not> fl_ge A eyeNorm medT) \<and>
         ((fl_lt A eyeNorm nearT \<longleftrightarrow> \<not> fl_ge A eyeNorm nearT) \<longrightarrow>
            (lastTier k' = Medium \<longleftrightarrow> fl_lt A eyeNorm nearT \<and> fl_ge A eyeNorm medT)) \<and>
         (attention k' \<longleftrightarrow> fl_lt A horiz tolerance \<and> fl_lt A vert tolerance) \<and>
         (nextTimerId k' \<noteq> nextTimerId k \<longleftrightarrow>
            (lastTier k' = Near \<or> lastTier k' = Medium) \<and> attention k' \<and> noseInRoi) \<and>
         (nextTimerId k' \<noteq> nextTimerId k \<longrightarrow>
            presenceDetected k' \<and> presenceTimer k' = Some (nextTimerId k)) \<and>
         (nextTimerId k' = nextTimerId k \<longrightarrow>
            presenceDetected k' = presenceDetected k \<and> presenceTimer k' = presenceTimer k))"
    unfolding Let_def f t t' q
    using p n tier_of_cases [of A pcfg "eyeDistanceNorm A res landmarks"]
    unfolding q
    by (simp add: attention_of_def horizOffset_def vertOffset_def inRoi_def eyeDistanceNorm_def
        nearTh_def medTh_def tol_def Let_def) blast
qed

theorem presence_tiers_and_qualification_witness:
  "lastTier (onResults exact default_cfg face_near kiosk_init) = Near \<and>
   attention (onResults exact default_cfg face_near kiosk_init) \<and>
   presenceDetected (onResults exact default_cfg face_near kiosk_init) \<and>
   lastTier (onResults exact default_cfg face_far kiosk_init) = Far \<and>
   nextTimerId (onResults exact default_cfg face_far kiosk_init) = nextTimerId kiosk_init"
proof -
  let ?n = "hd (multiFaceLandmarks face_near)" and ?f = "hd (multiFaceLandmarks face_far)"
  have n: "multiFaceLandmarks face_near = ?n # [] \<and> 263 < length ?n"
    by (simp add: face_near_def)
  have f: "multiFaceLandmarks face_far = ?f # [] \<and> 263 < length ?f"
    by (simp add: face_far_def)
  note near = presence_tiers_and_qualification
    [of face_near ?n "[]" exact default_cfg kiosk_init, unfolded Let_def, rule_format, OF n]
  note far = presence_tiers_and_qualification
    [of face_far ?f "[]" exact default_cfg kiosk_init, unfolded Let_def, rule_format, OF f]
  have a: "lastTier (onResults exact default_cfg face_near kiosk_init) = Near"
    using near by (simp add: face_near_def exact_def default_cfg_def sqrt_6400)
  have b: "attention (onResults exact default_cfg face_near kiosk_init)"
    using near by (simp add: face_near_def exact_def default_cfg_def)
  have c: "nextTimerId (onResults exact default_cfg face_near kiosk_init) \<noteq> nextTimerId kiosk_init"
    using near a b by (simp add: face_near_def exact_def default_cfg_def)
  with near have d: "presenceDetected (onResults exact default_cfg face_near kiosk_init)"
    by blast
  have e: "lastTier (onResults exact default_cfg face_far kiosk_init) = Far"
    using far by (simp add: face_far_def exact_def default_cfg_def sqrt_100)
  then have g: "nextTimerId (onResults exact default_cfg face_far kiosk_init) = nextTimerId kiosk_init"
    using far by auto
  from a b d e g show ?thesis by blast
qed

lemma boot_glob:
  "glob (boot True) = kiosk_init\<lparr>mainLoopStarted := True, onResultsInstalled := True\<rparr>"
  by (simp add: boot_def startPresenceDetection_def mainLoop_def)

text \<open>
  C5, as stated, fails. With \<open>holdMs\<close> configured as \<open>2^31\<close> the browser takes the delay
  of the hold timeout as \<open>-2^31\<close>, that is 0: after a qualifying frame the timeout is
  due at once, and presence goes off with no time passed since the frame.
\<close>

theorem presence_hold_timer_counterexample:
  "holdMs cfg_long_hold = Some 2147483648 \<and>
   presenceDetected (glob (run exact cfg_long_hold [FaceResults face_near] (boot True))) \<and>
   timeouts (glob (run exact cfg_long_hold [FaceResults face_near] (boot True))) = [(1, 0)] \<and>
   now (glob (run exact cfg_long_hold [FaceResults face_near] (boot True))) = 0 \<and>
   \<not> presenceDetected
       (glob (run exact cfg_long_hold [FaceResults face_near, HoldTimeout 1] (boot True)))"
proof -
  let ?k0 = "kiosk_init\<lparr>mainLoopStarted := True, onResultsInstalled := True\<rparr>"
  let ?k1 = "onResults exact cfg_long_hold face_near ?k0"
  have q: "qualifies exact cfg_long_hold face_near"
    by (rule face_near_qualifies) (simp_all add: cfg_long_hold_def)
  have h: "timer_delay (hold_ms cfg_long_hold) = 0"
    by (simp add: hold_ms_def cfg_long_hold_def timer_delay_wraps)
  note o = onResults_qualifies [OF q, of ?k0]
  have p: "presenceDetected ?k1" using o by blast
  have t: "timeouts ?k1 = [(1, 0)]" using o by (simp add: h kiosk_init_def)
  have n: "now ?k1 = 0" using o by (simp add: kiosk_init_def)
  have g1: "glob (run exact cfg_long_hold [FaceResults face_near] (boot True)) = ?k1"
    by (simp add: run_def boot_glob)
  have g2: "glob (run exact cfg_long_hold [FaceResults face_near, HoldTimeout 1] (boot True)) =
      holdTimeout 1 ?k1"
    by (simp add: run_def boot_glob)
  have off: "\<not> presenceDetected (holdTimeout 1 ?k1)"
    by (simp add: holdTimeout_def t n)
  have c: "holdMs cfg_long_hold = Some 2147483648" by (simp add: cfg_long_hold_def)
  show ?thesis unfolding g1 g2 using c p t n off by blast
qed

text \<open>
  C5, amended. For every sequence of analysed frames, each qualifying frame sets
  presence and (re)starts the hold timer: it leaves exactly one pending hold timeout,
  the new one, due after the delay the browser gives it, which is \<open>holdMs\<close> (20000 ms
  unless configured) whenever \<open>0 \<le> holdMs < 2^31\<close>. A frame that does not qualify, in
  particular one without a face, changes neither presence nor the timer. Presence goes
  from true to false only in the callback of a hold timeout that is due. So, for
  \<open>0 \<le> holdMs < 2^31\<close>, after a qualifying frame presence stays true, whatever callbacks
  run, as long as less than \<open>holdMs\<close> has passed since that frame.
\<close>

theorem presence_hold_timer:
  "(let hold = (case holdMs pcfg of None \<Rightarrow> 20000 | Some v \<Rightarrow> v)
    in (qualifies A pcfg res \<and> presence_wf k \<longrightarrow>
          presenceDetected (onResults A pcfg res k) \<and>
          presenceTimer (onResults A pcfg res k) = Some (nextTimerId k) \<and>
          timeouts (onResults A pcfg res k) = [(nextTimerId k, now k + timer_delay hold)]) \<and>
       (qualifies A pcfg res \<and> elapsed evs2 < timer_delay hold \<longrightarrow>
          presenceDetected (glob (run A pcfg (evs1 @ FaceResults res # evs2) (boot True)))) \<and>
       (qualifies A pcfg res \<and> 0 \<le> hold \<and> hold < 2147483648 \<and> int (elapsed evs2) < hold \<longrightarrow>
          presenceDetected (glob (run A pcfg (evs1 @ FaceResults res # evs2) (boot True))))) \<and>
   (\<forall>ms. 0 \<le> ms \<and> ms < 2147483648 \<longrightarrow> timer_delay ms = nat ms) \<and>
   presence_wf (glob (run A pcfg evs (boot camera_ok))) \<and>
   (\<not> qualifies A pcfg res \<longrightarrow>
      presenceDetected (onResults A pcfg res k) = presenceDetected k \<and>
      presenceTimer (onResults A pcfg res k) = presenceTimer k \<and>
      timeouts (onResults A pcfg res k) = timeouts k) \<and>
   \<not> qualifies A pcfg (res\<lparr>multiFaceLandmarks := []\<rparr>) \<and>
   (presenceDetected (glob s) \<and> \<not> presenceDetected (glob (step A pcfg ev s)) \<longrightarrow>
      (\<exists>h due. ev = HoldTimeout h \<and> (h, due) \<in> set (timeouts (glob s)) \<and> due \<le> now (glob s)))"
proof -
  define hold where "hold = (case holdMs pcfg of None \<Rightarrow> 20000 | Some v \<Rightarrow> v)"
  have hm: "hold_ms pcfg = hold" by (simp add: hold_ms_def hold_def)
  have a: "qualifies A pcfg res \<and> presence_wf k \<longrightarrow>
      presenceDetected (onResults A pcfg res k) \<and>
      presenceTimer (onResults A pcfg res k) = Some (nextTimerId k) \<and>
      timeouts (onResults A pcfg res k) = [(nextTimerId k, now k + timer_delay hold)]"
    using onResults_qualifies [of A pcfg res k] onResults_restart [of A pcfg res k]
    unfolding hm by blast
  have f: "qualifies A pcfg res \<and> elapsed evs2 < timer_delay hold \<longrightarrow>
      presenceDetected (glob (run A pcfg (evs1 @ FaceResults res # evs2) (boot True)))"
    using presence_held [of A pcfg res evs2 evs1] unfolding hm by blast
  have td: "\<forall>ms. 0 \<le> ms \<and> ms < 2147483648 \<longrightarrow> timer_delay ms = nat ms"
    using timer_delay_small by blast
  have f': "qualifies A pcfg res \<and> 0 \<le> hold \<and> hold < 2147483648 \<and> int (elapsed evs2) < hold \<longrightarrow>
      presenceDetected (glob (run A pcfg (evs1 @ FaceResults res # evs2) (boot True)))"
  proof
    assume h: "qualifies A pcfg res \<and> 0 \<le> hold \<and> hold < 2147483648 \<and> int (elapsed evs2) < hold"
    with td have "timer_delay hold = nat hold" by blast
    with h have "elapsed evs2 < timer_delay hold" by linarith
    with h f show "presenceDetected (glob (run A pcfg (evs1 @ FaceResults res # evs2) (boot True)))"
      by blast
  qed
  have b: "presence_wf (glob (run A pcfg evs (boot camera_ok)))"
    by (rule run_wf [OF boot_wf])
  have c: "\<not> qualifies A pcfg res \<longrightarrow>
      presenceDetected (onResults A pcfg res k) = presenceDetected k \<and>
      presenceTimer (onResults A pcfg res k) = presenceTimer k \<and>
      timeouts (onResults A pcfg res k) = timeouts k"
    using onResults_not_qualifies [of A pcfg res k] by blast
  have d: "\<not> qualifies A pcfg (res\<lparr>multiFaceLandmarks := []\<rparr>)"
    by (simp add: qualifies_def)
  have e: "presenceDetected (glob s) \<and> \<not> presenceDetected (glob (step A pcfg ev s)) \<longrightarrow>
      (\<exists>h due. ev = HoldTimeout h \<and> (h, due) \<in> set (timeouts (glob s)) \<and> due \<le> now (glob s))"
    using step_presence_off [of s A pcfg ev] by blast
  from a f f' td b c d e show ?thesis
    unfolding Let_def hold_def [symmetric] by blast
qed

theorem presence_hold_timer_witness:
  "presenceDetected (glob (run exact default_cfg
      [FaceResults face_near, Elapse 19999, FaceResults no_face, HoldTimeout 1] (boot True))) \<and>
   timeouts (onResults exact default_cfg face_near kiosk_init) = [(1, 20000)] \<and>
   presenceDetected (onResults exact default_cfg no_face
      (onResults exact default_cfg face_near kiosk_init)) \<and>
   timeouts (onResults exact default_cfg no_face
      (onResults exact default_cfg face_near kiosk_init)) = [(1, 20000)]"
proof -
  have q: "qualifies exact default_cfg face_near"
    by (rule face_near_qualifies) (simp_all add: default_cfg_def)
  have h: "(case holdMs default_cfg of None \<Rightarrow> 20000 | Some v \<Rightarrow> v) = 20000"
    by (simp add: default_cfg_def)
  have e: "int (elapsed [Elapse 19999, FaceResults no_face, HoldTimeout 1 :: real event]) < 20000"
    by simp
  have w: "presence_wf kiosk_init" by (simp add: presence_wf_def kiosk_init_def)
  have n: "\<not> qualifies exact default_cfg no_face" by (simp add: qualifies_def no_face_def)
  note t1 = presence_hold_timer [of default_cfg exact face_near kiosk_init
      "[Elapse 19999, FaceResults no_face, HoldTimeout 1]" "[]", unfolded Let_def h]
  note t2 = presence_hold_timer [of default_cfg exact no_face
      "onResults exact default_cfg face_near kiosk_init", unfolded Let_def h]
  have 1: "presenceDetected (glob (run exact default_cfg
      ([] @ FaceResults face_near # [Elapse 19999, FaceResults no_face, HoldTimeout 1]) (boot True)))"
    using t1 q e by simp
  have d: "timer_delay 20000 = 20000" using t1 by simp
  have 2: "presenceDetected (onResults exact default_cfg face_near kiosk_init) \<and>
      timeouts (onResults exact default_cfg face_near kiosk_init) = [(1, 20000)]"
    using t1 q w d by (simp add: kiosk_init_def)
  have 3: "presenceDetected (onResults exact default_cfg no_face
        (onResults exact default_cfg face_near kiosk_init)) =
      presenceDetected (onResults exact default_cfg face_near kiosk_init) \<and>
     timeouts (onResults exact default_cfg no_face
        (onResults exact default_cfg face_near kiosk_init)) =
       timeouts (onResults exact default_cfg face_near kiosk_init)"
    using t2 n by blast
  from 1 2 3 show ?thesis by simp
qed

section \<open>Mutual exclusion of dialogue turns\<close>

lemma onResults_busy: "busy (onResults A pcfg res k) = busy k"
  by (simp add: onResults_def Let_def clearTimeout_def setPresenceTimeout_def
      split: list.splits option.splits)

lemma holdTimeout_busy: "busy (holdTimeout h k) = busy k"
  by (simp add: holdTimeout_def clearTimeout_def)

lemma greet_done_busy: "busy (greet_done g k) = busy k"
  by (simp add: greet_done_def)

lemma call_loopOnce_one_turn: "one_turn s \<Longrightarrow> one_turn (call_loopOnce env g s)"
  by (auto simp add: one_turn_def call_loopOnce_def loopOnce_begin_def Let_def greet_done_busy)

lemma resume_one_turn: "one_turn s \<Longrightarrow> one_turn (resume A i s)"
proof (cases "i < length (turns s)")
  case False
  assume "one_turn s"
  with False show ?thesis by (simp add: resume_def)
next
  case True
  assume o: "one_turn s"
  with True have i: "i = 0" and l: "length (turns s) = 1" by (auto simp add: one_turn_def)
  then obtain pc env g where t: "turns s = [(pc, env, g)]"
    by (cases "turns s") auto
  show ?thesis
  proof (cases "turn_step A env pc (glob s)")
    case (Pair r k')
    show ?thesis
    proof (cases r)
      case None
      with Pair have "\<not> busy k'" using turn_step_exit by blast
      with None Pair t i show ?thesis
        by (simp add: resume_def one_turn_def greet_done_busy)
    next
      case (Some pc')
      with Pair have "busy k' = busy (glob s)" using turn_step_busy by blast
      with Some Pair t i o show ?thesis
        by (simp add: resume_def one_turn_def)
    qed
  qed
qed

lemma step_one_turn: "one_turn s \<Longrightarrow> one_turn (step A pcfg ev s)"
proof (cases ev)
  case (MainLoopTick env)
  assume o: "one_turn s"
  then have "one_turn (s\<lparr>glob := (glob s)\<lparr>greetedRecently := True\<rparr>\<rparr>)"
    by (simp add: one_turn_def)
  with o MainLoopTick show ?thesis by (simp add: call_loopOnce_one_turn)
next
  case (RetryClick env)
  assume "one_turn s"
  with RetryClick show ?thesis by (simp add: call_loopOnce_one_turn)
next
  case (Resume i)
  assume "one_turn s"
  with Resume show ?thesis by (simp add: resume_one_turn)
next
  case SafetyTimeout
  assume "one_turn s"
  with SafetyTimeout show ?thesis by (simp add: one_turn_def)
next
  case GreetTimeout
  assume "one_turn s"
  with GreetTimeout show ?thesis by (simp add: one_turn_def)
next
  case (FaceResults res)
  assume "one_turn s"
  with FaceResults show ?thesis by (simp add: one_turn_def onResults_busy)
next
  case (Elapse d)
  assume "one_turn s"
  with Elapse show ?thesis by (simp add: one_turn_def)
next
  case (HoldTimeout h)
  assume "one_turn s"
  with HoldTimeout show ?thesis by (simp add: one_turn_def holdTimeout_busy)
qed

lemma run_one_turn: "one_turn s \<Longrightarrow> one_turn (run A pcfg evs s)"
  unfolding run_def by (induction evs arbitrary: s) (simp_all add: step_one_turn)

lemma boot_one_turn: "one_turn (boot camera_ok)"
  by (simp add: one_turn_def boot_def startPresenceDetection_def mainLoop_def kiosk_init_def)

text \<open>
  C1. Whatever callbacks run, in whatever order, from page load: at most one call of
  \<open>loopOnce\<close> is past its guard at any time, and \<open>busy\<close> is set exactly while there
  is one. A call made while \<open>busy\<close> is set returns at once with the state unchanged:
  nothing is queued, no toast is shown, no call is added.
\<close>

theorem single_turn_mutual_exclusion:
  "length (turns (run A pcfg evs (boot camera_ok))) \<le> 1 \<and>
   (busy (glob (run A pcfg evs (boot camera_ok))) \<longleftrightarrow> turns (run A pcfg evs (boot camera_ok)) \<noteq> []) \<and>
   (busy k \<longrightarrow> loopOnce_begin k = (None, k) \<and> loopOnce A env k = k) \<and>
   (busy (glob s) \<longrightarrow> call_loopOnce env False s = s)"
  using run_one_turn [OF boot_one_turn, of A pcfg evs camera_ok]
  by (simp add: one_turn_def loopOnce_begin_def loopOnce_def call_loopOnce_def greet_done_def)

theorem single_turn_mutual_exclusion_witness:
  "turns (run exact default_cfg [FaceResults face_near, MainLoopTick env_quiet] (boot True)) =
     [(AwaitRecord False, env_quiet, True)] \<and>
   busy (glob (run exact default_cfg [FaceResults face_near, MainLoopTick env_quiet] (boot True))) \<and>
   call_loopOnce env_capture_fails False
     (run exact default_cfg [FaceResults face_near, MainLoopTick env_quiet] (boot True)) =
     run exact default_cfg [FaceResults face_near, MainLoopTick env_quiet] (boot True) \<and>
   loopOnce exact env_capture_fails (kiosk_init\<lparr>busy := True\<rparr>) = kiosk_init\<lparr>busy := True\<rparr>"
proof -
  let ?s = "run exact default_cfg [FaceResults face_near, MainLoopTick env_quiet] (boot True)"
  let ?k0 = "kiosk_init\<lparr>mainLoopStarted := True, onResultsInstalled := True\<rparr>"
  let ?k1 = "onResults exact default_cfg face_near ?k0"
  have b0: "glob (boot True :: real page) = ?k0" "turns (boot True :: real page) = []"
    by (simp_all add: boot_def startPresenceDetection_def mainLoop_def)
  have fq: "qualifies exact default_cfg face_near"
    by (rule face_near_qualifies) (simp_all add: default_cfg_def)
  have p: "presenceDetected ?k1"
    using onResults_qualifies [OF fq] by blast
  have m: "mainLoopStarted ?k1 \<and> currentPhase ?k1 = Idle \<and> \<not> greetedRecently ?k1 \<and>
      \<not> busy ?k1 \<and> \<not> isRecording ?k1"
    by (simp add: onResults_def Let_def clearTimeout_def setPresenceTimeout_def kiosk_init_def
        split: list.splits option.splits)
  have t: "turns ?s = [(AwaitRecord False, env_quiet, True)]"
    using p m by (simp add: run_def b0 call_loopOnce_def loopOnce_begin_def Let_def)
  then have ne: "turns ?s \<noteq> []" by simp
  have busy: "busy (glob ?s)"
    using single_turn_mutual_exclusion [of exact default_cfg
        "[FaceResults face_near, MainLoopTick env_quiet]" True] ne by blast
  then have d: "call_loopOnce env_capture_fails False ?s = ?s"
    using single_turn_mutual_exclusion [where s = ?s and env = env_capture_fails] by blast
  have "busy (kiosk_init\<lparr>busy := True\<rparr>)" by simp
  then have l: "loopOnce exact env_capture_fails (kiosk_init\<lparr>busy := True\<rparr>) =
      kiosk_init\<lparr>busy := True\<rparr>"
    using single_turn_mutual_exclusion
        [where k = "kiosk_init\<lparr>busy := True\<rparr>" and env = env_capture_fails and A = exact]
    by blast
  from t busy d l show ?thesis by blast
qed

section \<open>Refused camera\<close>

lemma step_camera_denied: "camera_denied s \<Longrightarrow> camera_denied (step A pcfg ev s)"
  by (cases ev) (auto simp add: camera_denied_def resume_def holdTimeout_def)

lemma run_camera_denied: "camera_denied s \<Longrightarrow> camera_denied (run A pcfg evs s)"
  unfolding run_def by (induction evs arbitrary: s) (simp_all add: step_camera_denied)

text \<open>
  C8. When the camera is refused, \<open>startPresenceDetection\<close> starts \<open>mainLoop\<close> and
  returns before the Face Mesh handler is registered. The page keeps running, but
  \<open>presenceDetected\<close> can never become true, so the polling loop never calls
  \<open>loopOnce\<close>: whatever callbacks run, no turn is ever started, nothing is recorded or
  sent, and no toast (with its retry button) is ever shown.
\<close>

theorem camera_denied_never_listens:
  "mainLoopStarted (glob (run A pcfg evs (boot False))) \<and>
   \<not> presenceDetected (glob (run A pcfg evs (boot False))) \<and>
   \<not> busy (glob (run A pcfg evs (boot False))) \<and>
   turns (run A pcfg evs (boot False)) = [] \<and>
   effects (glob (run A pcfg evs (boot False))) = []"
proof -
  have "camera_denied (boot False)"
    by (simp add: camera_denied_def boot_def startPresenceDetection_def mainLoop_def
        kiosk_init_def)
  then have "camera_denied (run A pcfg evs (boot False))" by (rule run_camera_denied)
  then show ?thesis by (simp add: camera_denied_def)
qed

section \<open>Properties of the streaming handlers\<close>

lemma stream_run_snoc: "stream_run (evs @ [ev]) s = stream_step ev (stream_run evs s)"
  by (simp add: stream_run_def)

lemma onmessage_globals:
  "page_globals (onmessage d s) = page_globals s \<and> wsStream (onmessage d s) = wsStream s \<and>
   binaryType (onmessage d s) = binaryType s"
  by (cases "(d, s)" rule: onmessage.cases)
    (auto simp add: Let_def setEmotion_def playGesture_def playPcmChunk_def split: option.splits)

lemma stream_step_globals: "page_globals (stream_step ev s) = page_globals s \<and>
  binaryType (stream_step ev s) = binaryType s"
  by (cases ev) (simp_all add: onmessage_globals onclose_def)

lemma stream_run_globals: "page_globals (stream_run evs s) = page_globals s \<and>
  binaryType (stream_run evs s) = binaryType s"
  unfolding stream_run_def by (induction evs arbitrary: s) (simp_all add: stream_step_globals)

lemma onmessage_arraybuffer:
  "scheduled (onmessage (deliver ArrayBufferType frame) s) = scheduled s"
proof (cases frame)
  case (TextFrame m)
  show ?thesis
    unfolding TextFrame deliver_def
    by (cases "(StringData m, s)" rule: onmessage.cases)
      (auto simp add: Let_def setEmotion_def playGesture_def split: option.splits)
next
  case (BinaryFrame bytes)
  then show ?thesis by (simp add: deliver_def)
qed

lemma stream_step_scheduled:
  "binaryType s = ArrayBufferType \<Longrightarrow> scheduled (stream_step ev s) = scheduled s"
  by (cases ev) (simp_all add: onmessage_arraybuffer onclose_def)

lemma stream_run_scheduled:
  "binaryType s = ArrayBufferType \<Longrightarrow> scheduled (stream_run evs s) = scheduled s"
  unfolding stream_run_def
  by (induction evs arbitrary: s) (simp_all add: stream_step_scheduled stream_step_globals)

text \<open>
  C9. The socket is opened with \<open>binaryType = 'arraybuffer'\<close>, so a binary frame reaches
  \<open>onmessage\<close> as an \<open>ArrayBuffer\<close>, on which \<open>evt.data.arrayBuffer()\<close> throws; the
  \<open>catch\<close> logs it. Whatever frames arrive, \<open>playPcmChunk\<close> is never reached and no
  buffer is ever given to playback.
\<close>

theorem binary_frames_never_played:
  "scheduled (stream_run evs (stream_open avatar suspended outcome)) = [] \<and>
   binaryType (stream_run evs (stream_open avatar suspended outcome)) = ArrayBufferType \<and>
   scheduled (stream_run one_pcm_frame (stream_open avatar suspended outcome)) = []"
proof -
  have b: "binaryType (stream_open avatar suspended outcome) = ArrayBufferType" "scheduled (stream_open avatar suspended outcome) = []"
    by (simp_all add: stream_open_def)
  then show ?thesis
    using stream_run_scheduled [of "stream_open avatar suspended outcome"]
      stream_run_globals [of _ "stream_open avatar suspended outcome"]
    by simp
qed

text \<open>What \<open>playPcmChunk\<close> does with a buffer of whole 16-bit words, were it reached:
  one playback buffer at the given rate, a sample for every word, each the signed value
  of the word over 32768.\<close>

lemma length_int16_le: "length (int16_le bytes) = length bytes div 2"
  by (induction bytes rule: int16_le.induct) simp_all

lemma playPcmChunk_decodes:
  assumes "even (length bytes)" "bytes \<noteq> []"
  shows "scheduled (playPcmChunk bytes rate s) =
           scheduled s @ [(rate, map (\<lambda>v. real_of_int (sint v) / 32768) (int16_le bytes))]"
    and "length (map (\<lambda>v. real_of_int (sint v) / 32768) (int16_le bytes)) = length bytes div 2"
    and "\<forall>x\<in>set (map (\<lambda>v. real_of_int (sint v) / 32768) (int16_le bytes)). - 1 \<le> x \<and> x < 1"
proof -
  from assms have "2 \<le> length bytes" by (cases bytes) (auto elim: oddE)
  then have "0 < length bytes div 2" by simp
  then have "int16_le bytes \<noteq> []" using length_int16_le [of bytes] by auto
  with assms show "scheduled (playPcmChunk bytes rate s) =
           scheduled s @ [(rate, map (\<lambda>v. real_of_int (sint v) / 32768) (int16_le bytes))]"
    by (simp add: playPcmChunk_def Let_def)
  show "length (map (\<lambda>v. real_of_int (sint v) / 32768) (int16_le bytes)) = length bytes div 2"
    by (simp add: length_int16_le)
  show "\<forall>x\<in>set (map (\<lambda>v. real_of_int (sint v) / 32768) (int16_le bytes)). - 1 \<le> x \<and> x < 1"
  proof
    fix x assume "x \<in> set (map (\<lambda>v. real_of_int (sint v) / 32768) (int16_le bytes))"
    then obtain v :: "16 word" where x: "x = real_of_int (sint v) / 32768" by auto
    have "- 32768 \<le> sint v" "sint v < 32768"
      using sint_ge [of v] sint_lt [of v] by simp_all
    then have "- 32768 \<le> real_of_int (sint v)" "real_of_int (sint v) < 32768" by linarith+
    then show "- 1 \<le> x \<and> x < 1" unfolding x by simp
  qed
qed

lemma close_mid_turn_calls:
  "avatarCalls (stream_run close_mid_turn (stream_open avatar suspended outcome)) =
     (if avatar \<and> (\<not> suspended \<or> outcome = ResumeResolves)
      then [SetEmotion (ascii ''happy'')] else [])"
  by (simp add: close_mid_turn_def stream_run_def stream_open_def deliver_def onclose_def
      setEmotion_def Let_def)

text \<open>
  C7. When the channel closes after \<open>audio_start\<close> and before \<open>audio_end\<close>, the close
  handler stops the recorder and the microphone tracks, clears the channel handle and
  sets the idle status text, and makes no call on the avatar: the reset to
  \<open>setEmotion('neutral')\<close> that the \<open>audio_end\<close> branch makes is missing on this path.
  With an avatar present the only call it has received is \<open>setEmotion('happy')\<close>;
  whatever the avatar, the context and the frames before, \<open>setEmotion('neutral')\<close> is
  not sent by the close. The dialogue phase is idle throughout (no streaming handler
  assigns it).
\<close>

theorem close_skips_avatar_reset:
  "avatarCalls (stream_run (evs @ [Closed]) s0) = avatarCalls (stream_run evs s0) \<and>
   avatarCalls (stream_run close_mid_turn (stream_open True False outcome)) =
     [SetEmotion (ascii ''happy'')] \<and>
   SetEmotion (ascii ''neutral'') \<notin>
     set (avatarCalls (stream_run close_mid_turn (stream_open avatar suspended outcome))) \<and>
   avatarCalls (onmessage (StringData (Some AudioEnd)) s) =
     (if avatarController s then avatarCalls s @ [SetEmotion (ascii ''neutral'')]
      else avatarCalls s) \<and>
   onclose s = s\<lparr>recorderActive := False, micLive := False, wsStream := False,
                 statusEl := IDLE_TEXT\<rparr> \<and>
   currentPhase (page_globals (stream_run evs (stream_open avatar suspended outcome))) = Idle"
proof -
  have a: "avatarCalls (stream_run (evs @ [Closed]) s0) = avatarCalls (stream_run evs s0)"
    by (simp add: stream_run_snoc onclose_def)
  have b: "avatarCalls (stream_run close_mid_turn (stream_open True False outcome)) =
      [SetEmotion (ascii ''happy'')]"
    by (simp add: close_mid_turn_calls)
  have c: "SetEmotion (ascii ''neutral'') \<notin>
      set (avatarCalls (stream_run close_mid_turn (stream_open avatar suspended outcome)))"
    by (simp add: close_mid_turn_calls ascii_def)
  have d: "avatarCalls (onmessage (StringData (Some AudioEnd)) s) =
      (if avatarController s then avatarCalls s @ [SetEmotion (ascii ''neutral'')]
       else avatarCalls s)"
    by (simp add: setEmotion_def)
  have e: "onclose s = s\<lparr>recorderActive := False, micLive := False, wsStream := False,
                 statusEl := IDLE_TEXT\<rparr>"
    by (simp add: onclose_def)
  have f: "currentPhase (page_globals (stream_run evs (stream_open avatar suspended outcome))) = Idle"
    by (simp add: stream_run_globals stream_open_def kiosk_init_def)
  from a b c d e f show ?thesis by blast
qed

end
